theory Spec2Isabelle
  imports Main "HOL-Library.Sublist" "HOL-Library.Multiset"
begin

section \<open>Strings\<close>

text \<open>
  A Python \<^verbatim>\<open>str\<close> is modelled as a \<^typ>\<open>string\<close> holding its UTF-8 bytes, so the
  Japanese literals of \<^verbatim>\<open>reaction_finder.py\<close> appear as byte lists. Concatenation and
  f-string interpolation are list append. An argument that argparse leaves at \<^verbatim>\<open>None\<close>
  is \<^term>\<open>None\<close>; Python's truth test \<^verbatim>\<open>if args.x:\<close> holds for a string that is
  present and non-empty, and for an integer that is present and non-zero.
\<close>

definition truthy_str :: "string option \<Rightarrow> bool" where
  "truthy_str v = (case v of None \<Rightarrow> False | Some s \<Rightarrow> s \<noteq> [])"

definition truthy_int :: "int option \<Rightarrow> bool" where
  "truthy_int v = (case v of None \<Rightarrow> False | Some n \<Rightarrow> n \<noteq> 0)"

text \<open>The number read from an integer argument that has passed the truth test.\<close>

definition int_arg :: "int option \<Rightarrow> int" where
  "int_arg v = (case v of None \<Rightarrow> 0 | Some n \<Rightarrow> n)"

text \<open>The text an f-string puts in for \<^verbatim>\<open>{args.x}\<close>.\<close>

definition fmt_str :: "string option \<Rightarrow> string" where
  "fmt_str v = (case v of None \<Rightarrow> ''None'' | Some s \<Rightarrow> s)"

text \<open>
  \<^verbatim>\<open>str.strip()\<close> removes white space at both ends. The one-byte white space characters
  of Python are TAB, LF, VT, FF, CR, the separators 0x1C..0x1F and the blank.
\<close>

definition is_space :: "char \<Rightarrow> bool" where
  "is_space c = ((of_char c :: nat) \<in> {9, 10, 11, 12, 13, 28, 29, 30, 31, 32})"

definition strip :: "string \<Rightarrow> string" where
  "strip s = rev (dropWhile is_space (rev (dropWhile is_space s)))"

definition is_digit :: "char \<Rightarrow> bool" where
  "is_digit c = (48 \<le> (of_char c :: nat) \<and> (of_char c :: nat) \<le> 57)"

definition digit_value :: "char \<Rightarrow> int" where
  "digit_value c = int (of_char c) - 48"

definition digit_char :: "int \<Rightarrow> char" where
  "digit_char d = char_of (48 + nat d)"

text \<open>The character class \<^verbatim>\<open>[lo-hi]\<close> of a regular expression.\<close>

definition in_class :: "char \<Rightarrow> char \<Rightarrow> char \<Rightarrow> bool" where
  "in_class lo hi c = ((of_char lo :: nat) \<le> of_char c \<and> (of_char c :: nat) \<le> of_char hi)"

text \<open>\<^verbatim>\<open>str(n)\<close> for an integer: decimal digits, with a minus sign when negative.\<close>

fun str_nat :: "nat \<Rightarrow> string" where
  "str_nat n = (if n < 10 then [digit_char (int n)]
                else str_nat (n div 10) @ [digit_char (int (n mod 10))])"

declare str_nat.simps [simp del]

definition str_int :: "int \<Rightarrow> string" where
  "str_int i = (if i < 0 then CHR ''-'' # str_nat (nat (- i)) else str_nat (nat i))"

section \<open>Exceptions\<close>

text \<open>
  \<^verbatim>\<open>SlackApiError\<close> carries the server's response; the code reads
  \<^verbatim>\<open>e.response["error"]\<close> and prints \<^verbatim>\<open>str(e)\<close>. \<open>OtherError\<close> stands for
  every exception that is none of the three named ones (a transport failure, say).
\<close>

record slack_error =
  err_code :: string
  err_text :: string

datatype exn =
    ValueError string
  | OverflowError
  | SlackApiError slack_error
  | OtherError string

section \<open>Calendar dates\<close>

text \<open>
  This section follows Python's \<^verbatim>\<open>datetime\<close> module, which the program calls.
  \<^verbatim>\<open>datetime\<close> values live in the proleptic Gregorian calendar, years 1 to 9999, with
  day ordinals counted from 0001-01-01 = 1. The time of day is kept in microseconds:
  \<^verbatim>\<open>strptime\<close> with a date-only format gives midnight, \<^verbatim>\<open>datetime.now()\<close> any time.
  Python compares naive datetimes field by field, in the order year, month, day, time.
\<close>

record datetime =
  dt_year :: int
  dt_month :: int
  dt_day :: int
  dt_time :: int

definition dt_gt :: "datetime \<Rightarrow> datetime \<Rightarrow> bool" where
  "dt_gt a b =
     (dt_year a > dt_year b \<or>
      (dt_year a = dt_year b \<and>
        (dt_month a > dt_month b \<or>
         (dt_month a = dt_month b \<and>
           (dt_day a > dt_day b \<or> (dt_day a = dt_day b \<and> dt_time a > dt_time b))))))"

definition MINYEAR :: int where "MINYEAR = 1"
definition MAXYEAR :: int where "MAXYEAR = 9999"
definition MAXORDINAL :: int where "MAXORDINAL = 3652059"

definition is_leap :: "int \<Rightarrow> bool" where
  "is_leap y = (y mod 4 = 0 \<and> (y mod 100 \<noteq> 0 \<or> y mod 400 = 0))"

definition DAYS_IN_MONTH :: "int list" where
  "DAYS_IN_MONTH = [-1, 31, 28, 31, 30, 31, 30, 31, 31, 30, 31, 30, 31]"

definition DAYS_BEFORE_MONTH :: "int list" where
  "DAYS_BEFORE_MONTH = [-1, 0, 31, 59, 90, 120, 151, 181, 212, 243, 273, 304, 334]"

definition days_in_month :: "int \<Rightarrow> int \<Rightarrow> int" where
  "days_in_month y m = (if m = 2 \<and> is_leap y then 29 else DAYS_IN_MONTH ! nat m)"

definition days_before_year :: "int \<Rightarrow> int" where
  "days_before_year year = (let y = year - 1 in y * 365 + y div 4 - y div 100 + y div 400)"

definition days_before_month :: "int \<Rightarrow> int \<Rightarrow> int" where
  "days_before_month y m = DAYS_BEFORE_MONTH ! nat m + (if m > 2 \<and> is_leap y then 1 else 0)"

definition ymd2ord :: "int \<Rightarrow> int \<Rightarrow> int \<Rightarrow> int" where
  "ymd2ord y m d = days_before_year y + days_before_month y m + d"

definition toordinal :: "datetime \<Rightarrow> int" where
  "toordinal t = ymd2ord (dt_year t) (dt_month t) (dt_day t)"

text \<open>
  The inverse walks down the 400-, 100-, 4- and 1-year cycles. Within the year, the
  month is estimated from the day number \<open>n\<close> (counted from 0) and stepped back by one
  when the estimate is too high.
\<close>

definition month_and_day :: "bool \<Rightarrow> int \<Rightarrow> int \<times> int" where
  "month_and_day leapyear n =
     (let month = (n + 50) div 32;
          preceding = DAYS_BEFORE_MONTH ! nat month + (if month > 2 \<and> leapyear then 1 else 0)
      in if preceding > n
         then let month' = month - 1;
                  preceding' = preceding -
                    (DAYS_IN_MONTH ! nat month' + (if month' = 2 \<and> leapyear then 1 else 0))
              in (month', n - preceding' + 1)
         else (month, n - preceding + 1))"

definition ord2ymd :: "int \<Rightarrow> int \<times> int \<times> int" where
  "ord2ymd ordinal =
     (let n0 = ordinal - 1;
          n400 = n0 div 146097; r400 = n0 mod 146097;
          n100 = r400 div 36524; r100 = r400 mod 36524;
          n4 = r100 div 1461; r4 = r100 mod 1461;
          n1 = r4 div 365; n = r4 mod 365;
          year = n400 * 400 + 1 + n100 * 100 + n4 * 4 + n1
      in if n1 = 4 \<or> n100 = 4 then (year - 1, 12, 31)
         else (year, month_and_day (n1 = 3 \<and> (n4 \<noteq> 24 \<or> n100 = 3)) n))"

text \<open>
  \<^verbatim>\<open>d - timedelta(days=n)\<close>: the \<^verbatim>\<open>timedelta\<close> constructor refuses more than
  999999999 days, and the subtraction refuses a result outside years 1..9999; both raise
  \<^verbatim>\<open>OverflowError\<close>. The time of day is unchanged.
\<close>

definition minus_days :: "datetime \<Rightarrow> int \<Rightarrow> exn + datetime" where
  "minus_days t n =
     (if \<bar>n\<bar> > 999999999 then Inl OverflowError
      else let ordinal = toordinal t - n
           in if 0 < ordinal \<and> ordinal \<le> MAXORDINAL
              then (case ord2ymd ordinal of
                      (y, m, d) \<Rightarrow> Inr \<lparr>dt_year = y, dt_month = m, dt_day = d, dt_time = dt_time t\<rparr>)
              else Inl OverflowError)"

text \<open>A calendar date: a year from 1 to 9999, a month, and a day the month has.\<close>

definition is_date :: "datetime \<Rightarrow> bool" where
  "is_date t =
     (MINYEAR \<le> dt_year t \<and> dt_year t \<le> MAXYEAR \<and> 1 \<le> dt_month t \<and> dt_month t \<le> 12
      \<and> 1 \<le> dt_day t \<and> dt_day t \<le> days_in_month (dt_year t) (dt_month t))"

text \<open>
  \<^verbatim>\<open>strftime('%Y-%m-%d')\<close>: month and day in two digits, zero padded. The year is
  printed by the C library: glibc prints it as a plain decimal number, so a year below
  1000 has fewer than four digits, other libraries pad it with zeros to four digits.
  The parameter \<open>padded\<close> says which; from the year 1000 on there is no difference.
\<close>

definition pad2 :: "int \<Rightarrow> string" where
  "pad2 n = [digit_char (n div 10 mod 10), digit_char (n mod 10)]"

definition pad4 :: "int \<Rightarrow> string" where
  "pad4 n = [digit_char (n div 1000 mod 10), digit_char (n div 100 mod 10),
             digit_char (n div 10 mod 10), digit_char (n mod 10)]"

definition strftime :: "bool \<Rightarrow> datetime \<Rightarrow> string" where
  "strftime padded t =
     (if padded then pad4 (dt_year t) else str_int (dt_year t))
     @ ''-'' @ pad2 (dt_month t) @ ''-'' @ pad2 (dt_day t)"

text \<open>
  In UTF-8 a character beyond ASCII takes a lead byte and one to three continuation
  bytes 0x80..0xBF. \<open>utf8_head\<close> reads the first character of a string, as its code
  point, and returns it with the rest of the string.
\<close>

definition is_cont :: "char \<Rightarrow> bool" where
  "is_cont b = (128 \<le> (of_char b :: nat) \<and> (of_char b :: nat) < 192)"

definition cont_bits :: "char \<Rightarrow> nat" where
  "cont_bits b = of_char b - 128"

definition utf8_head :: "string \<Rightarrow> (nat \<times> string) option" where
  "utf8_head s =
     (case s of
        [] \<Rightarrow> None
      | b0 # bs \<Rightarrow>
         (let n0 = (of_char b0 :: nat) in
          if n0 < 128 then Some (n0, bs)
          else if 194 \<le> n0 \<and> n0 < 224 then
            (case bs of
               b1 # rest \<Rightarrow>
                 if is_cont b1 then Some ((n0 - 192) * 64 + cont_bits b1, rest) else None
             | _ \<Rightarrow> None)
          else if 224 \<le> n0 \<and> n0 < 240 then
            (case bs of
               b1 # b2 # rest \<Rightarrow>
                 if is_cont b1 \<and> is_cont b2
                 then Some ((n0 - 224) * 4096 + cont_bits b1 * 64 + cont_bits b2, rest)
                 else None
             | _ \<Rightarrow> None)
          else if 240 \<le> n0 \<and> n0 < 245 then
            (case bs of
               b1 # b2 # b3 # rest \<Rightarrow>
                 if is_cont b1 \<and> is_cont b2 \<and> is_cont b3
                 then Some ((n0 - 240) * 262144 + cont_bits b1 * 4096 + cont_bits b2 * 64
                            + cont_bits b3, rest)
                 else None
             | _ \<Rightarrow> None)
          else None))"

text \<open>
  The class \<^verbatim>\<open>\d\<close> of a regular expression over \<^verbatim>\<open>str\<close> holds every Unicode decimal
  digit, and \<^verbatim>\<open>int()\<close> reads each of them as its value. The ASCII digits are fixed;
  the digits beyond ASCII come from the Unicode database of the interpreter, the
  parameter \<open>nd\<close>, which gives the value of a code point that is a decimal digit.
\<close>

definition decimal :: "(nat \<Rightarrow> int option) \<Rightarrow> nat \<Rightarrow> int option" where
  "decimal nd cp =
     (if cp < 128 then (if 48 \<le> cp \<and> cp \<le> 57 then Some (int cp - 48) else None)
      else nd cp)"

text \<open>One \<^verbatim>\<open>\d\<close> at the front of a string: the digit's value and the rest.\<close>

definition read_digit :: "(nat \<Rightarrow> int option) \<Rightarrow> string \<Rightarrow> (int \<times> string) option" where
  "read_digit nd s =
     (case utf8_head s of
        None \<Rightarrow> None
      | Some (cp, rest) \<Rightarrow>
         (case decimal nd cp of
            None \<Rightarrow> None
          | Some v \<Rightarrow> Some (v, rest)))"

text \<open>
  \<^verbatim>\<open>datetime.strptime(s, '%Y-%m-%d')\<close> matches the regular expression
  \<^verbatim>\<open>(\d\d\d\d)-(1[0-2]|0[1-9]|[1-9])-(3[0-1]|[1-2]\d|0[1-9]|[1-9]| [1-9])\<close>
  against the whole of \<open>s\<close> and then builds the date, which fails for a year 0 and for a
  day the month does not have. Every failure is a \<^verbatim>\<open>ValueError\<close>, here \<^term>\<open>None\<close>.
\<close>

definition read_year :: "(nat \<Rightarrow> int option) \<Rightarrow> string \<Rightarrow> (int \<times> string) option" where
  "read_year nd s =
     (case read_digit nd s of
        None \<Rightarrow> None
      | Some (a, s1) \<Rightarrow>
         (case read_digit nd s1 of
            None \<Rightarrow> None
          | Some (b, s2) \<Rightarrow>
             (case read_digit nd s2 of
                None \<Rightarrow> None
              | Some (c, s3) \<Rightarrow>
                 (case read_digit nd s3 of
                    None \<Rightarrow> None
                  | Some (d, s4) \<Rightarrow> Some (1000 * a + 100 * b + 10 * c + d, s4)))))"

fun match_month :: "string \<Rightarrow> int option" where
  "match_month [a, b] =
     (if a = CHR ''1'' \<and> in_class CHR ''0'' CHR ''2'' b then Some (10 + digit_value b)
      else if a = CHR ''0'' \<and> in_class CHR ''1'' CHR ''9'' b then Some (digit_value b)
      else None)"
| "match_month [a] = (if in_class CHR ''1'' CHR ''9'' a then Some (digit_value a) else None)"
| "match_month _ = None"

text \<open>
  The day: the alternatives in the order of the regular expression. After \<^verbatim>\<open>[1-2]\<close>
  one \<^verbatim>\<open>\d\<close> must take up all that is left.
\<close>

fun match_day :: "(nat \<Rightarrow> int option) \<Rightarrow> string \<Rightarrow> int option" where
  "match_day nd [] = None"
| "match_day nd [a] = (if in_class CHR ''1'' CHR ''9'' a then Some (digit_value a) else None)"
| "match_day nd (a # b # bs) =
     (if a = CHR ''3'' \<and> in_class CHR ''0'' CHR ''1'' b \<and> bs = [] then Some (30 + digit_value b)
      else if in_class CHR ''1'' CHR ''2'' a then
        (case read_digit nd (b # bs) of
           None \<Rightarrow> None
         | Some (v, rest) \<Rightarrow> if rest = [] then Some (10 * digit_value a + v) else None)
      else if a = CHR ''0'' \<and> in_class CHR ''1'' CHR ''9'' b \<and> bs = [] then Some (digit_value b)
      else if a = CHR '' '' \<and> in_class CHR ''1'' CHR ''9'' b \<and> bs = [] then Some (digit_value b)
      else None)"

text \<open>The month is the one or two characters between the two hyphens.\<close>

fun split_month_day :: "string \<Rightarrow> (string \<times> string) option" where
  "split_month_day (a # b # rest) =
     (if b = CHR ''-'' then Some ([a], rest)
      else (case rest of
              c # ds \<Rightarrow> if c = CHR ''-'' then Some ([a, b], ds) else None
            | [] \<Rightarrow> None))"
| "split_month_day _ = None"

definition make_date :: "int \<Rightarrow> int \<Rightarrow> int \<Rightarrow> datetime option" where
  "make_date y m d =
     (if MINYEAR \<le> y \<and> y \<le> MAXYEAR \<and> 1 \<le> m \<and> m \<le> 12 \<and> 1 \<le> d \<and> d \<le> days_in_month y m
      then Some \<lparr>dt_year = y, dt_month = m, dt_day = d, dt_time = 0\<rparr>
      else None)"

definition strptime :: "(nat \<Rightarrow> int option) \<Rightarrow> string \<Rightarrow> datetime option" where
  "strptime nd s =
     (case read_year nd s of
        None \<Rightarrow> None
      | Some (y, s4) \<Rightarrow>
         (case s4 of
            [] \<Rightarrow> None
          | hyphen # s5 \<Rightarrow>
             if hyphen \<noteq> CHR ''-'' then None
             else
               (case split_month_day s5 of
                  None \<Rightarrow> None
                | Some (ms, ds) \<Rightarrow>
                   (case match_month ms of
                      None \<Rightarrow> None
                    | Some m \<Rightarrow>
                       (case match_day nd ds of
                          None \<Rightarrow> None
                        | Some d \<Rightarrow> make_date y m d)))))"

text \<open>
  What the program takes from the interpreter and its platform: the decimal digits
  beyond ASCII of the Unicode database, with their values; whether the C library pads
  the year of \<^verbatim>\<open>strftime\<close>; and the reading of the clock, \<^verbatim>\<open>datetime.now()\<close>.
\<close>

record runtime =
  rt_decimal :: "nat \<Rightarrow> int option"
  rt_pads_year :: bool
  rt_now :: datetime

section \<open>The date query builder\<close>

record args =
  arg_on :: "string option"
  arg_after :: "string option"
  arg_before :: "string option"
  arg_days :: "int option"

text \<open>The messages of the \<^verbatim>\<open>ValueError\<close>s that \<^verbatim>\<open>build_date_query\<close> raises.\<close>

definition msg_bad_on :: string where
  "msg_bad_on =
     ''--on '' @ [CHR 0xE3, CHR 0x81, CHR 0xAE, CHR 0xE6, CHR 0x97, CHR 0xA5, CHR 0xE4,
     CHR 0xBB, CHR 0x98, CHR 0xE5, CHR 0xBD, CHR 0xA2, CHR 0xE5, CHR 0xBC, CHR 0x8F,
     CHR 0xE3, CHR 0x81, CHR 0x8C, CHR 0xE6, CHR 0xAD, CHR 0xA3, CHR 0xE3, CHR 0x81,
     CHR 0x97, CHR 0xE3, CHR 0x81, CHR 0x8F, CHR 0xE3, CHR 0x81, CHR 0x82, CHR 0xE3,
     CHR 0x82, CHR 0x8A, CHR 0xE3, CHR 0x81, CHR 0xBE, CHR 0xE3, CHR 0x81, CHR 0x9B,
     CHR 0xE3, CHR 0x82, CHR 0x93, CHR 0xEF, CHR 0xBC, CHR 0x88] @ ''YYYY-MM-DD'' @
     [CHR 0xEF, CHR 0xBC, CHR 0x89]"

definition msg_bad_before :: string where
  "msg_bad_before =
     ''--before '' @ [CHR 0xE3, CHR 0x81, CHR 0xAE, CHR 0xE6, CHR 0x97, CHR 0xA5, CHR 0xE4,
     CHR 0xBB, CHR 0x98, CHR 0xE5, CHR 0xBD, CHR 0xA2, CHR 0xE5, CHR 0xBC, CHR 0x8F,
     CHR 0xE3, CHR 0x81, CHR 0x8C, CHR 0xE6, CHR 0xAD, CHR 0xA3, CHR 0xE3, CHR 0x81,
     CHR 0x97, CHR 0xE3, CHR 0x81, CHR 0x8F, CHR 0xE3, CHR 0x81, CHR 0x82, CHR 0xE3,
     CHR 0x82, CHR 0x8A, CHR 0xE3, CHR 0x81, CHR 0xBE, CHR 0xE3, CHR 0x81, CHR 0x9B,
     CHR 0xE3, CHR 0x82, CHR 0x93, CHR 0xEF, CHR 0xBC, CHR 0x88] @ ''YYYY-MM-DD'' @
     [CHR 0xEF, CHR 0xBC, CHR 0x89]"

definition msg_bad_after :: string where
  "msg_bad_after =
     ''--after '' @ [CHR 0xE3, CHR 0x81, CHR 0xAE, CHR 0xE6, CHR 0x97, CHR 0xA5, CHR 0xE4,
     CHR 0xBB, CHR 0x98, CHR 0xE5, CHR 0xBD, CHR 0xA2, CHR 0xE5, CHR 0xBC, CHR 0x8F,
     CHR 0xE3, CHR 0x81, CHR 0x8C, CHR 0xE6, CHR 0xAD, CHR 0xA3, CHR 0xE3, CHR 0x81,
     CHR 0x97, CHR 0xE3, CHR 0x81, CHR 0x8F, CHR 0xE3, CHR 0x81, CHR 0x82, CHR 0xE3,
     CHR 0x82, CHR 0x8A, CHR 0xE3, CHR 0x81, CHR 0xBE, CHR 0xE3, CHR 0x81, CHR 0x9B,
     CHR 0xE3, CHR 0x82, CHR 0x93, CHR 0xEF, CHR 0xBC, CHR 0x88] @ ''YYYY-MM-DD'' @
     [CHR 0xEF, CHR 0xBC, CHR 0x89]"

definition msg_order_1 :: string where
  "msg_order_1 =
     [CHR 0xE6, CHR 0x97, CHR 0xA5, CHR 0xE4, CHR 0xBB, CHR 0x98, CHR 0xE3, CHR 0x81,
     CHR 0xAE, CHR 0xE6, CHR 0x8C, CHR 0x87, CHR 0xE5, CHR 0xAE, CHR 0x9A, CHR 0xE3,
     CHR 0x81, CHR 0x8C, CHR 0xE4, CHR 0xB8, CHR 0x8D, CHR 0xE6, CHR 0xAD, CHR 0xA3,
     CHR 0xE3, CHR 0x81, CHR 0xA7, CHR 0xE3, CHR 0x81, CHR 0x99] @ '': --after (''"

definition msg_order_2 :: string where
  "msg_order_2 =
     '') '' @ [CHR 0xE3, CHR 0x81, CHR 0x8C] @ '' --before (''"

definition msg_order_3 :: string where
  "msg_order_3 =
     '') '' @ [CHR 0xE3, CHR 0x82, CHR 0x88, CHR 0xE3, CHR 0x82, CHR 0x8A, CHR 0xE5,
     CHR 0xBE, CHR 0x8C, CHR 0xE3, CHR 0x81, CHR 0xAB, CHR 0xE3, CHR 0x81, CHR 0xAA,
     CHR 0xE3, CHR 0x81, CHR 0xA3, CHR 0xE3, CHR 0x81, CHR 0xA6, CHR 0xE3, CHR 0x81,
     CHR 0x84, CHR 0xE3, CHR 0x81, CHR 0xBE, CHR 0xE3, CHR 0x81, CHR 0x99, CHR 0xE3,
     CHR 0x80, CHR 0x82, CHR 0x0A, CHR 0xE6, CHR 0xAD, CHR 0xA3, CHR 0xE3, CHR 0x81,
     CHR 0x97, CHR 0xE3, CHR 0x81, CHR 0x84, CHR 0xE9, CHR 0xA0, CHR 0x86, CHR 0xE5,
     CHR 0xBA, CHR 0x8F, CHR 0xE3, CHR 0x81, CHR 0xA7, CHR 0xE6, CHR 0x8C, CHR 0x87,
     CHR 0xE5, CHR 0xAE, CHR 0x9A, CHR 0xE3, CHR 0x81, CHR 0x97, CHR 0xE3, CHR 0x81,
     CHR 0xA6, CHR 0xE3, CHR 0x81, CHR 0x8F, CHR 0xE3, CHR 0x81, CHR 0xA0, CHR 0xE3,
     CHR 0x81, CHR 0x95, CHR 0xE3, CHR 0x81, CHR 0x84, CHR 0xEF, CHR 0xBC, CHR 0x88,
     CHR 0xE4, CHR 0xBE, CHR 0x8B] @ '': --after 2025-02-01 --before 2025-10-31'' @
     [CHR 0xEF, CHR 0xBC, CHR 0x89]"

definition msg_order :: "string \<Rightarrow> string \<Rightarrow> string" where
  "msg_order a b = msg_order_1 @ a @ msg_order_2 @ b @ msg_order_3"

text \<open>
  One \<^verbatim>\<open>try\<close> block of the second branch: parse the argument when it is truthy, raise
  the \<^verbatim>\<open>ValueError\<close> with the branch's message when it does not parse.
\<close>

definition parse_arg ::
  "runtime \<Rightarrow> string \<Rightarrow> string option \<Rightarrow> exn + datetime option" where
  "parse_arg rt msg v =
     (if truthy_str v
      then (case strptime (rt_decimal rt) (fmt_str v) of
              None \<Rightarrow> Inl (ValueError msg)
            | Some d \<Rightarrow> Inr (Some d))
      else Inr None)"

text \<open>
  \<^verbatim>\<open>build_date_query(args)\<close>. The \<^verbatim>\<open>--on\<close> branch returns without stripping; all
  other branches end in \<^verbatim>\<open>date_query.strip()\<close>.
\<close>

definition build_date_query :: "runtime \<Rightarrow> args \<Rightarrow> exn + string" where
  "build_date_query rt a =
     (if truthy_str (arg_on a) then
        (case strptime (rt_decimal rt) (fmt_str (arg_on a)) of
           None \<Rightarrow> Inl (ValueError msg_bad_on)
         | Some _ \<Rightarrow> Inr (''on:'' @ fmt_str (arg_on a)))
      else if truthy_int (arg_days a) then
        (if truthy_str (arg_before a) then
           (case strptime (rt_decimal rt) (fmt_str (arg_before a)) of
              None \<Rightarrow> Inl (ValueError msg_bad_before)
            | Some end_date \<Rightarrow>
               (case minus_days end_date (int_arg (arg_days a)) of
                  Inl e \<Rightarrow> Inl e
                | Inr start_date \<Rightarrow>
                   Inr (strip (''after:'' @ strftime (rt_pads_year rt) start_date @ '' before:''
                               @ fmt_str (arg_before a)))))
         else
           (case minus_days (rt_now rt) (int_arg (arg_days a)) of
              Inl e \<Rightarrow> Inl e
            | Inr start_date \<Rightarrow>
               Inr (strip (''after:'' @ strftime (rt_pads_year rt) start_date))))
      else if truthy_str (arg_after a) \<or> truthy_str (arg_before a) then
        (case parse_arg rt msg_bad_after (arg_after a) of
           Inl e \<Rightarrow> Inl e
         | Inr after_date \<Rightarrow>
            (case parse_arg rt msg_bad_before (arg_before a) of
               Inl e \<Rightarrow> Inl e
             | Inr before_date \<Rightarrow>
                (case (after_date, before_date) of
                   (Some ad, Some bd) \<Rightarrow>
                     if ad = bd then Inr (strip (''on:'' @ fmt_str (arg_after a)))
                     else if dt_gt ad bd
                       then Inl (ValueError (msg_order (fmt_str (arg_after a))
                                                       (fmt_str (arg_before a))))
                     else Inr (strip (''after:'' @ fmt_str (arg_after a) @ '' before:''
                                      @ fmt_str (arg_before a)))
                 | _ \<Rightarrow>
                     Inr (strip ((if truthy_str (arg_after a)
                                  then ''after:'' @ fmt_str (arg_after a) @ '' '' else [])
                                 @ (if truthy_str (arg_before a)
                                    then ''before:'' @ fmt_str (arg_before a) else []))))))
      else Inr (strip []))"

section \<open>The Slack client\<close>

text \<open>
  The dictionaries of the Slack API are records. A key the code reads by index is a
  field; a key it reads with \<^verbatim>\<open>.get\<close>, tests with \<^verbatim>\<open>in\<close>, or reads under a handler
  that catches its absence is an optional field.
\<close>

record channel =
  chan_id :: string
  chan_name :: string

record raw_match =
  match_channel :: channel
  match_ts :: string
  match_permalink :: string

record search_response =
  total :: int
  matches :: "raw_match list"

record reaction =
  reaction_name :: string
  reaction_count :: int

record message =
  msg_text :: "string option"
  msg_user :: "string option"
  msg_reactions :: "reaction list option"

record user_info =
  real_name :: "string option"

text \<open>
  The three remote calls of \<^verbatim>\<open>WebClient\<close> that the program makes. A call either
  raises or returns its response, and the answer is a function of the request.
  The search request carries the page number, which grows with every call, so any
  sequence of page responses is such a function.
\<close>

record client =
  search_messages :: "string \<Rightarrow> string \<Rightarrow> string \<Rightarrow> int \<Rightarrow> int \<Rightarrow> exn + search_response"
  conversations_history :: "string \<Rightarrow> string \<Rightarrow> bool \<Rightarrow> int \<Rightarrow> exn + message list"
  users_info :: "string \<Rightarrow> exn + user_info"

text \<open>
  What the run does to the outside: the remote calls it issues, with their keyword
  arguments in the order of the source, and the strings it writes to standard output.
\<close>

datatype call =
    SearchMessages string string string int int
  | ConversationsHistory string string bool int
  | UsersInfo string

record world =
  calls :: "call list"
  stdout :: "string list"

definition issue :: "call \<Rightarrow> world \<Rightarrow> world" where
  "issue c w = w\<lparr>calls := calls w @ [c]\<rparr>"

text \<open>\<^verbatim>\<open>print(s, end=e)\<close>; the default end is a line feed.\<close>

definition print_end :: "string \<Rightarrow> string \<Rightarrow> world \<Rightarrow> world" where
  "print_end s e w = w\<lparr>stdout := stdout w @ [s @ e]\<rparr>"

definition print :: "string \<Rightarrow> world \<Rightarrow> world" where
  "print s w = print_end s [CHR 0x0A] w"

text \<open>
  The texts of the output: the placeholder for a message without text, the prefix of
  the error notice, and the parts of the announcement and of the progress line.
\<close>

definition txt_no_text :: string where
  "txt_no_text =
     ''('' @ [CHR 0xE3, CHR 0x83, CHR 0x86, CHR 0xE3, CHR 0x82, CHR 0xAD, CHR 0xE3,
     CHR 0x82, CHR 0xB9, CHR 0xE3, CHR 0x83, CHR 0x88, CHR 0xE3, CHR 0x81, CHR 0xAA,
     CHR 0xE3, CHR 0x81, CHR 0x97] @ '')''"

definition txt_error_notice :: string where
  "txt_error_notice =
     [CHR 0x0A, CHR 0xE2, CHR 0x9A, CHR 0xA0, CHR 0xEF, CHR 0xB8, CHR 0x8F] @ '' '' @
     [CHR 0xE3, CHR 0x82, CHR 0xA8, CHR 0xE3, CHR 0x83, CHR 0xA9, CHR 0xE3, CHR 0x83,
     CHR 0xBC] @ '': ''"

definition txt_found_1 :: string where
  "txt_found_1 =
     [CHR 0xE6, CHR 0xA4, CHR 0x9C, CHR 0xE7, CHR 0xB4, CHR 0xA2, CHR 0xE7, CHR 0xB5,
     CHR 0x90, CHR 0xE6, CHR 0x9E, CHR 0x9C] @ '': ''"

definition txt_found_2 :: string where
  "txt_found_2 =
     '' '' @ [CHR 0xE4, CHR 0xBB, CHR 0xB6, CHR 0xE3, CHR 0x81, CHR 0xAE, CHR 0xE6,
     CHR 0x8A, CHR 0x95, CHR 0xE7, CHR 0xA8, CHR 0xBF, CHR 0xE3, CHR 0x81, CHR 0x8C,
     CHR 0xE8, CHR 0xA6, CHR 0x8B, CHR 0xE3, CHR 0x81, CHR 0xA4, CHR 0xE3, CHR 0x81,
     CHR 0x8B, CHR 0xE3, CHR 0x82, CHR 0x8A, CHR 0xE3, CHR 0x81, CHR 0xBE, CHR 0xE3,
     CHR 0x81, CHR 0x97, CHR 0xE3, CHR 0x81, CHR 0x9F]"

definition txt_fetch_1 :: string where
  "txt_fetch_1 =
     [CHR 0xE6, CHR 0x9C, CHR 0x80, CHR 0xE5, CHR 0xA4, CHR 0xA7]"

definition txt_fetch_2 :: string where
  "txt_fetch_2 =
     [CHR 0xE4, CHR 0xBB, CHR 0xB6, CHR 0xE3, CHR 0x82, CHR 0x92, CHR 0xE5, CHR 0x8F,
     CHR 0x96, CHR 0xE5, CHR 0xBE, CHR 0x97, CHR 0xE3, CHR 0x81, CHR 0x97, CHR 0xE3,
     CHR 0x81, CHR 0xA6, CHR 0xE5, CHR 0x88, CHR 0x86, CHR 0xE6, CHR 0x9E, CHR 0x90,
     CHR 0xE3, CHR 0x81, CHR 0x97, CHR 0xE3, CHR 0x81, CHR 0xBE, CHR 0xE3, CHR 0x81,
     CHR 0x99] @ ''...'' @ [CHR 0x0A]"

definition txt_progress :: string where
  "txt_progress =
     [CHR 0xE5, CHR 0x87, CHR 0xA6, CHR 0xE7, CHR 0x90, CHR 0x86, CHR 0xE4, CHR 0xB8,
     CHR 0xAD] @ '': ''"

section \<open>Resolving one match\<close>

text \<open>
  \<^verbatim>\<open>get_user_name\<close>: the bare \<^verbatim>\<open>except:\<close> catches whatever the lookup raises, and the
  \<^verbatim>\<open>KeyError\<close> of a response without \<^verbatim>\<open>real_name\<close>.
\<close>

definition get_user_name :: "client \<Rightarrow> string \<Rightarrow> world \<Rightarrow> world \<times> string" where
  "get_user_name c user_id w =
     (let w1 = issue (UsersInfo user_id) w
      in case users_info c user_id of
           Inl e \<Rightarrow> (w1, user_id)
         | Inr info \<Rightarrow>
            (case real_name info of
               None \<Rightarrow> (w1, user_id)
             | Some name \<Rightarrow> (w1, name)))"

record qualifying_record =
  rec_text :: string
  rec_user :: string
  rec_count :: int
  rec_channel_name :: string
  rec_timestamp :: string
  rec_datetime :: datetime
  rec_permalink :: string

text \<open>
  The handler of \<^verbatim>\<open>fetch_message_details\<close>: a \<^verbatim>\<open>SlackApiError\<close> raised inside the
  \<^verbatim>\<open>try\<close> block ends in \<^verbatim>\<open>return None\<close>, after a notice unless the error is
  \<^verbatim>\<open>channel_not_found\<close>; any other exception leaves the function.
\<close>

definition handle_fetch_error :: "exn \<Rightarrow> world \<Rightarrow> world \<times> (exn + qualifying_record option)" where
  "handle_fetch_error e w =
     (case e of
        SlackApiError se \<Rightarrow>
          (if err_code se \<noteq> ''channel_not_found''
           then (print (txt_error_notice @ err_text se) w, Inr None)
           else (w, Inr None))
      | _ \<Rightarrow> (w, Inl e))"

text \<open>
  \<^verbatim>\<open>fetch_message_details\<close>. The parameter \<open>fromtimestamp\<close> stands for
  \<^verbatim>\<open>datetime.fromtimestamp(float(ts))\<close>, which reads the string as a floating-point
  number of seconds and converts it in the local time zone, or raises.
\<close>

definition fetch_message_details ::
  "(string \<Rightarrow> exn + datetime) \<Rightarrow> client \<Rightarrow> raw_match \<Rightarrow> string \<Rightarrow> world
     \<Rightarrow> world \<times> (exn + qualifying_record option)" where
  "fetch_message_details fromtimestamp c m target_emoji w =
     (let w1 = issue (ConversationsHistory (chan_id (match_channel m)) (match_ts m) True 1) w
      in case conversations_history c (chan_id (match_channel m)) (match_ts m) True 1 of
           Inl e \<Rightarrow> handle_fetch_error e w1
         | Inr msgs \<Rightarrow>
            (case msgs of
               [] \<Rightarrow> (w1, Inr None)
             | msg # _ \<Rightarrow>
                (case msg_reactions msg of
                   None \<Rightarrow> (w1, Inr None)
                 | Some reactions \<Rightarrow>
                    (case find (\<lambda>r. reaction_name r = target_emoji) reactions of
                       None \<Rightarrow> (w1, Inr None)
                     | Some r \<Rightarrow>
                        (case get_user_name c (case msg_user msg of None \<Rightarrow> [] | Some u \<Rightarrow> u) w1 of
                           (w2, username) \<Rightarrow>
                             (case fromtimestamp (match_ts m) of
                                Inl e \<Rightarrow> handle_fetch_error e w2
                              | Inr msg_datetime \<Rightarrow>
                                 (w2, Inr (Some
                                    \<lparr>rec_text = (case msg_text msg of
                                                   None \<Rightarrow> txt_no_text | Some t \<Rightarrow> t),
                                     rec_user = username,
                                     rec_count = reaction_count r,
                                     rec_channel_name = chan_name (match_channel m),
                                     rec_timestamp = match_ts m,
                                     rec_datetime = msg_datetime,
                                     rec_permalink = match_permalink m\<rparr>))))))))"

section \<open>Search and analysis\<close>

definition API_MAX_PER_PAGE :: int where
  "API_MAX_PER_PAGE = 100"

text \<open>The two lines printed after the first page has arrived.\<close>

definition announce :: "int \<Rightarrow> int \<Rightarrow> int \<Rightarrow> world \<Rightarrow> world" where
  "announce page total_matches max_results w =
     (if page = 1
      then print (txt_fetch_1 @ str_int max_results @ txt_fetch_2)
             (print (txt_found_1 @ str_int total_matches @ txt_found_2) w)
      else w)"

text \<open>
  The \<^verbatim>\<open>while\<close> loop of \<^verbatim>\<open>search_and_analyze\<close>, from the state \<open>(all_matches, page)\<close>.
  An exception of the search call ends the run.
\<close>

function search_loop ::
  "client \<Rightarrow> string \<Rightarrow> int \<Rightarrow> raw_match list \<Rightarrow> int \<Rightarrow> world
     \<Rightarrow> world \<times> (exn + raw_match list)" where
  "search_loop c search_query max_results all_matches page w =
     (if int (length all_matches) < max_results then
        (let count = min API_MAX_PER_PAGE (max_results - int (length all_matches));
             w1 = issue (SearchMessages search_query ''timestamp'' ''desc'' count page) w
         in case search_messages c search_query ''timestamp'' ''desc'' count page of
              Inl e \<Rightarrow> (w1, Inl e)
            | Inr search_response \<Rightarrow>
               (let w2 = announce page (total search_response) max_results w1
                in if matches search_response = [] then (w2, Inr all_matches)
                   else
                     (let all_matches' = all_matches @ matches search_response
                      in if int (length (matches search_response)) < count
                            \<or> int (length all_matches') \<ge> max_results
                         then (w2, Inr all_matches')
                         else search_loop c search_query max_results all_matches' (page + 1) w2)))
      else (w, Inr all_matches))"
  by pat_completeness auto
termination
  by (relation "measure (\<lambda>(c, q, max_results, all_matches, page, w).
                   nat (max_results - int (length all_matches)))") auto

declare search_loop.simps [simp del]

text \<open>\<^verbatim>\<open>xs[:n]\<close>: a negative \<open>n\<close> counts from the end.\<close>

definition slice_upto :: "'a list \<Rightarrow> int \<Rightarrow> 'a list" where
  "slice_upto xs n = (if n \<ge> 0 then take (nat n) xs else take (nat (int (length xs) + n)) xs)"

text \<open>
  Lines 228 to 265 of \<^verbatim>\<open>search_and_analyze\<close>: the loop from the empty accumulator and
  page 1, then \<^verbatim>\<open>all_matches[:max_results]\<close>.
\<close>

definition collect_matches ::
  "client \<Rightarrow> string \<Rightarrow> int \<Rightarrow> world \<Rightarrow> world \<times> (exn + raw_match list)" where
  "collect_matches c search_query max_results w =
     (case search_loop c search_query max_results [] 1 w of
        (w1, Inl e) \<Rightarrow> (w1, Inl e)
      | (w1, Inr all_matches) \<Rightarrow> (w1, Inr (slice_upto all_matches max_results)))"

text \<open>The progress line of the \<^verbatim>\<open>for\<close> loop, ended by a carriage return.\<close>

definition progress :: "nat \<Rightarrow> nat \<Rightarrow> world \<Rightarrow> world" where
  "progress i n w =
     print_end (txt_progress @ str_int (int i) @ ''/'' @ str_int (int n)) [CHR 0x0D] w"

text \<open>
  The \<^verbatim>\<open>for\<close> loop over \<^verbatim>\<open>enumerate(all_matches, 1)\<close>; \<open>n\<close> is \<^verbatim>\<open>len(all_matches)\<close>
  and \<open>i\<close> the running index. A record is a non-empty dictionary, hence truthy.
\<close>

fun resolve_loop ::
  "(string \<Rightarrow> exn + datetime) \<Rightarrow> client \<Rightarrow> string \<Rightarrow> nat \<Rightarrow> nat \<Rightarrow> raw_match list
     \<Rightarrow> qualifying_record list \<Rightarrow> world \<Rightarrow> world \<times> (exn + qualifying_record list)" where
  "resolve_loop fromtimestamp c target_emoji n i [] messages_with_reactions w =
     (w, Inr messages_with_reactions)"
| "resolve_loop fromtimestamp c target_emoji n i (m # rest) messages_with_reactions w =
     (let w1 = progress i n w
      in case fetch_message_details fromtimestamp c m target_emoji w1 of
           (w2, Inl e) \<Rightarrow> (w2, Inl e)
         | (w2, Inr None) \<Rightarrow>
             resolve_loop fromtimestamp c target_emoji n (Suc i) rest messages_with_reactions w2
         | (w2, Inr (Some message_detail)) \<Rightarrow>
             resolve_loop fromtimestamp c target_emoji n (Suc i) rest
               (messages_with_reactions @ [message_detail]) w2)"

text \<open>
  \<^verbatim>\<open>list.sort(key=k, reverse=True)\<close>: Python's sort is stable, and with
  \<^verbatim>\<open>reverse=True\<close> it still keeps equal keys in their original order: the list is
  reversed, sorted stably in ascending order, and reversed again.
\<close>

definition sort_reverse :: "('a \<Rightarrow> int) \<Rightarrow> 'a list \<Rightarrow> 'a list" where
  "sort_reverse k xs = rev (sort_key k (rev xs))"

text \<open>Lines 279 and 280: the ranking by reaction count.\<close>

definition rank :: "qualifying_record list \<Rightarrow> qualifying_record list" where
  "rank messages_with_reactions = sort_reverse rec_count messages_with_reactions"

definition search_and_analyze ::
  "(string \<Rightarrow> exn + datetime) \<Rightarrow> client \<Rightarrow> string \<Rightarrow> string \<Rightarrow> int \<Rightarrow> world
     \<Rightarrow> world \<times> (exn + qualifying_record list)" where
  "search_and_analyze fromtimestamp c search_query target_emoji max_results w =
     (case collect_matches c search_query max_results w of
        (w1, Inl e) \<Rightarrow> (w1, Inl e)
      | (w1, Inr all_matches) \<Rightarrow>
         (case resolve_loop fromtimestamp c target_emoji (length all_matches) 1 all_matches [] w1 of
            (w2, Inl e) \<Rightarrow> (w2, Inl e)
          | (w2, Inr messages_with_reactions) \<Rightarrow>
             (print [CHR 0x0A] w2, Inr (rank messages_with_reactions))))"

section \<open>Observations on a run\<close>

text \<open>
  The properties below speak about the calls a run has logged. A search request is
  the pair of the page size and the page number; its call, the answer of the remote
  end and the matches in that answer (none when the call raises) follow from it.
\<close>

definition search_call :: "string \<Rightarrow> int \<times> int \<Rightarrow> call" where
  "search_call q r = SearchMessages q ''timestamp'' ''desc'' (fst r) (snd r)"

definition page_reply :: "client \<Rightarrow> string \<Rightarrow> int \<times> int \<Rightarrow> exn + search_response" where
  "page_reply c q r = search_messages c q ''timestamp'' ''desc'' (fst r) (snd r)"

definition page_matches :: "client \<Rightarrow> string \<Rightarrow> int \<times> int \<Rightarrow> raw_match list" where
  "page_matches c q r = (case page_reply c q r of Inl e \<Rightarrow> [] | Inr resp \<Rightarrow> matches resp)"

text \<open>What a list of requests has brought in, in order.\<close>

definition gathered :: "client \<Rightarrow> string \<Rightarrow> (int \<times> int) list \<Rightarrow> raw_match list" where
  "gathered c q rs = concat (map (page_matches c q) rs)"

text \<open>
  The stopping condition: the page holds strictly fewer matches than were requested,
  or the accumulator, with the page appended, has reached the target.
\<close>

definition page_stops ::
  "client \<Rightarrow> string \<Rightarrow> int \<Rightarrow> raw_match list \<Rightarrow> int \<times> int \<Rightarrow> bool" where
  "page_stops c q t acc r =
     (int (length (page_matches c q r)) < fst r
      \<or> t \<le> int (length (acc @ page_matches c q r)))"

text \<open>
  A list of requests is a run of the loop from the accumulator \<open>acc\<close> and the page
  number \<open>page\<close> with the outcome \<open>out\<close>.
\<close>

fun run_from ::
  "client \<Rightarrow> string \<Rightarrow> int \<Rightarrow> raw_match list \<Rightarrow> int \<Rightarrow> (int \<times> int) list
     \<Rightarrow> (exn + raw_match list) \<Rightarrow> bool" where
  "run_from c q t acc page [] out = (\<not> int (length acc) < t \<and> out = Inr acc)"
| "run_from c q t acc page (r # rs) out =
     (int (length acc) < t \<and> r = (min 100 (t - int (length acc)), page) \<and>
      (case page_reply c q r of
         Inl e \<Rightarrow> rs = [] \<and> out = Inl e
       | Inr resp \<Rightarrow>
          if page_stops c q t acc r then rs = [] \<and> out = Inr (acc @ matches resp)
          else rs \<noteq> [] \<and> run_from c q t (acc @ matches resp) (page + 1) rs out))"

text \<open>The message-fetch call for a match, and its answer.\<close>

definition history_call :: "raw_match \<Rightarrow> call" where
  "history_call m = ConversationsHistory (chan_id (match_channel m)) (match_ts m) True 1"

definition history_reply :: "client \<Rightarrow> raw_match \<Rightarrow> exn + message list" where
  "history_reply c m = conversations_history c (chan_id (match_channel m)) (match_ts m) True 1"

text \<open>\<^verbatim>\<open>message.get("user", "")\<close>: the raw author identifier.\<close>

definition author_id :: "message \<Rightarrow> string" where
  "author_id msg = (case msg_user msg of None \<Rightarrow> [] | Some u \<Rightarrow> u)"

text \<open>The user lookup fails: the call raises, or its answer has no \<^verbatim>\<open>real_name\<close>.\<close>

definition lookup_fails :: "client \<Rightarrow> string \<Rightarrow> bool" where
  "lookup_fails c user_id =
     (case users_info c user_id of Inl e \<Rightarrow> True | Inr info \<Rightarrow> real_name info = None)"

text \<open>The message carries the target reaction; \<open>r\<close> is the first entry of that name.\<close>

definition carries :: "message \<Rightarrow> string \<Rightarrow> reaction \<Rightarrow> bool" where
  "carries msg target_emoji r =
     (case msg_reactions msg of
        None \<Rightarrow> False
      | Some reactions \<Rightarrow> find (\<lambda>x. reaction_name x = target_emoji) reactions = Some r)"

text \<open>
  What the resolver returns for a match, and the records of a list of matches, in
  order. The resolver's result does not depend on the calls and the output so far.
\<close>

definition resolution ::
  "(string \<Rightarrow> exn + datetime) \<Rightarrow> client \<Rightarrow> string \<Rightarrow> raw_match
     \<Rightarrow> exn + qualifying_record option" where
  "resolution ft c target_emoji m =
     snd (fetch_message_details ft c m target_emoji \<lparr>calls = [], stdout = []\<rparr>)"

definition resolved ::
  "(string \<Rightarrow> exn + datetime) \<Rightarrow> client \<Rightarrow> string \<Rightarrow> raw_match list
     \<Rightarrow> qualifying_record list" where
  "resolved ft c target_emoji ms =
     concat (map (\<lambda>m. case resolution ft c target_emoji m of
                         Inr (Some d) \<Rightarrow> [d]
                       | _ \<Rightarrow> []) ms)"

text \<open>
  The remote calls the resolver makes for a match, and those of a list of matches, in
  order.
\<close>

definition requests ::
  "(string \<Rightarrow> exn + datetime) \<Rightarrow> client \<Rightarrow> string \<Rightarrow> raw_match list \<Rightarrow> call list" where
  "requests ft c target_emoji ms =
     concat (map (\<lambda>m. calls (fst (fetch_message_details ft c m target_emoji
                                      \<lparr>calls = [], stdout = []\<rparr>))) ms)"

section \<open>Example inputs\<close>

text \<open>
  A match, an empty world, and a remote end whose search has \<open>n1\<close> matches on page 1,
  \<open>n2\<close> on page 2 and none after, whatever page size is asked for; its other calls
  find no message and no user.
\<close>

definition example_match :: raw_match where
  "example_match =
     \<lparr>match_channel = \<lparr>chan_id = ''C123'', chan_name = ''general''\<rparr>,
      match_ts = ''1609459200.000000'',
      match_permalink = ''https://slack.com/link''\<rparr>"

definition empty_world :: world where
  "empty_world = \<lparr>calls = [], stdout = []\<rparr>"

definition paged_client :: "nat \<Rightarrow> nat \<Rightarrow> client" where
  "paged_client n1 n2 =
     \<lparr>search_messages = (\<lambda>q sort sort_dir count page.
        Inr \<lparr>total = int (n1 + n2),
             matches = (if page = 1 then replicate n1 example_match
                        else if page = 2 then replicate n2 example_match
                        else [])\<rparr>),
      conversations_history = (\<lambda>channel latest inclusive limit. Inr []),
      users_info = (\<lambda>user. Inl (OtherError ''user_not_found''))\<rparr>"

text \<open>
  A remote end whose message fetch returns the one message \<open>msg\<close> and whose user
  lookup is \<open>lookup\<close>; one whose message fetch raises \<open>e\<close>; a clock that reads every
  timestamp as the first second of 2021.
\<close>

definition message_client :: "message \<Rightarrow> (string \<Rightarrow> exn + user_info) \<Rightarrow> client" where
  "message_client msg lookup =
     \<lparr>search_messages = (\<lambda>q sort sort_dir count page. Inr \<lparr>total = 0, matches = []\<rparr>),
      conversations_history = (\<lambda>channel latest inclusive limit. Inr [msg]),
      users_info = lookup\<rparr>"

definition failing_client :: "exn \<Rightarrow> client" where
  "failing_client e =
     \<lparr>search_messages = (\<lambda>q sort sort_dir count page. Inr \<lparr>total = 0, matches = []\<rparr>),
      conversations_history = (\<lambda>channel latest inclusive limit. Inl e),
      users_info = (\<lambda>user. Inl (OtherError ''user_not_found''))\<rparr>"

text \<open>
  A match in another channel, and a remote end whose message fetch raises \<open>e\<close> for
  that channel and returns the one message \<open>msg\<close> for every other.
\<close>

definition gone_match :: raw_match where
  "gone_match =
     \<lparr>match_channel = \<lparr>chan_id = ''C404'', chan_name = ''archive''\<rparr>,
      match_ts = ''1609459100.000000'',
      match_permalink = ''https://slack.com/gone''\<rparr>"

definition patchy_client :: "exn \<Rightarrow> message \<Rightarrow> client" where
  "patchy_client e msg =
     \<lparr>search_messages = (\<lambda>q sort sort_dir count page. Inr \<lparr>total = 0, matches = []\<rparr>),
      conversations_history = (\<lambda>channel latest inclusive limit.
        if channel = ''C404'' then Inl e else Inr [msg]),
      users_info = (\<lambda>user. Inr \<lparr>real_name = Some ''John Doe''\<rparr>)\<rparr>"

definition example_message :: message where
  "example_message =
     \<lparr>msg_text = Some ''Great work!'', msg_user = Some ''U12345'',
      msg_reactions = Some [\<lparr>reaction_name = ''pray'', reaction_count = 5\<rparr>]\<rparr>"

definition example_clock :: "string \<Rightarrow> exn + datetime" where
  "example_clock ts = Inr \<lparr>dt_year = 2021, dt_month = 1, dt_day = 1, dt_time = 0\<rparr>"

definition no_user :: "string \<Rightarrow> exn + user_info" where
  "no_user user = Inl (SlackApiError \<lparr>err_code = ''user_not_found'', err_text = ''user_not_found''\<rparr>)"

definition john_doe :: "string \<Rightarrow> exn + user_info" where
  "john_doe user = Inr \<lparr>real_name = Some ''John Doe''\<rparr>"

text \<open>
  The decimal digits beyond ASCII of Unicode 14.0, the database of CPython 3.11: each
  entry of the table is the code point of a digit zero, followed by the digits one to
  nine of its script. With it, a runtime on glibc, and one on a C library that pads.
\<close>

definition nd_zeros :: "nat list" where
  "nd_zeros =
    [0x660, 0x6F0, 0x7C0, 0x966, 0x9E6, 0xA66, 0xAE6, 0xB66, 0xBE6, 0xC66, 0xCE6, 0xD66,
      0xDE6, 0xE50, 0xED0, 0xF20, 0x1040, 0x1090, 0x17E0, 0x1810, 0x1946, 0x19D0, 0x1A80,
      0x1A90, 0x1B50, 0x1BB0, 0x1C40, 0x1C50, 0xA620, 0xA8D0, 0xA900, 0xA9D0, 0xA9F0,
      0xAA50, 0xABF0, 0xFF10, 0x104A0, 0x10D30, 0x11066, 0x110F0, 0x11136, 0x111D0,
      0x112F0, 0x11450, 0x114D0, 0x11650, 0x116C0, 0x11730, 0x118E0, 0x11950, 0x11C50,
      0x11D50, 0x11DA0, 0x16A60, 0x16AC0, 0x16B50, 0x1D7CE, 0x1D7D8, 0x1D7E2, 0x1D7EC,
      0x1D7F6, 0x1E140, 0x1E2F0, 0x1E950, 0x1FBF0]"

definition unicode_nd :: "nat \<Rightarrow> int option" where
  "unicode_nd cp =
     (case find (\<lambda>z. z \<le> cp \<and> cp < z + 10) nd_zeros of
        None \<Rightarrow> None
      | Some z \<Rightarrow> Some (int cp - int z))"

definition example_today :: datetime where
  "example_today = \<lparr>dt_year = 2025, dt_month = 1, dt_day = 1, dt_time = 43200000000\<rparr>"

definition example_runtime :: runtime where
  "example_runtime = \<lparr>rt_decimal = unicode_nd, rt_pads_year = False, rt_now = example_today\<rparr>"

definition padding_runtime :: runtime where
  "padding_runtime = \<lparr>rt_decimal = unicode_nd, rt_pads_year = True, rt_now = example_today\<rparr>"

text \<open>A trailing window anchored at an end day; a record.\<close>

definition window_args :: "int \<Rightarrow> string \<Rightarrow> args" where
  "window_args n e = \<lparr>arg_on = None, arg_after = None, arg_before = Some e, arg_days = Some n\<rparr>"

definition example_record :: "string \<Rightarrow> int \<Rightarrow> qualifying_record" where
  "example_record text n =
     \<lparr>rec_text = text, rec_user = ''John Doe'', rec_count = n,
      rec_channel_name = ''general'', rec_timestamp = ''1609459200.000000'',
      rec_datetime = \<lparr>dt_year = 2021, dt_month = 1, dt_day = 1, dt_time = 0\<rparr>,
      rec_permalink = ''https://slack.com/link''\<rparr>"

section \<open>Properties of the date query builder\<close>

text \<open>A digit that has been read is at least one byte, and its last byte is no white space.\<close>

lemma read_digit_shape:
  assumes "read_digit nd s = Some (v, rest)"
  shows "\<exists>pre. s = pre @ rest \<and> pre \<noteq> [] \<and> \<not> is_space (last pre)"
proof -
  from assms obtain cp where h: "utf8_head s = Some (cp, rest)" and d: "decimal nd cp = Some v"
    by (auto simp: read_digit_def split: option.splits)
  from h obtain b0 bs where s: "s = b0 # bs"
    by (cases s) (auto simp: utf8_head_def)
  show ?thesis
  proof (cases "(of_char b0 :: nat) < 128")
    case True
    with h s have "cp = of_char b0" "rest = bs"
      by (auto simp: utf8_head_def Let_def)
    with d True have "s = [b0] @ rest" "\<not> is_space (last [b0])"
      using s by (auto simp: decimal_def is_space_def split: if_splits)
    then show ?thesis by blast
  next
    case False
    with h s consider
        (two) b1 where "bs = b1 # rest" "is_cont b1"
      | (three) b1 b2 where "bs = b1 # b2 # rest" "is_cont b2"
      | (four) b1 b2 b3 where "bs = b1 # b2 # b3 # rest" "is_cont b3"
      by (auto simp: utf8_head_def Let_def split: if_splits list.splits)
    then show ?thesis
    proof cases
      case two
      then have "s = [b0, b1] @ rest" "\<not> is_space (last [b0, b1])"
        using s by (auto simp: is_cont_def is_space_def)
      then show ?thesis by blast
    next
      case three
      then have "s = [b0, b1, b2] @ rest" "\<not> is_space (last [b0, b1, b2])"
        using s by (auto simp: is_cont_def is_space_def)
      then show ?thesis by blast
    next
      case four
      then have "s = [b0, b1, b2, b3] @ rest" "\<not> is_space (last [b0, b1, b2, b3])"
        using s by (auto simp: is_cont_def is_space_def)
      then show ?thesis by blast
    qed
  qed
qed

lemma read_year_shape:
  assumes "read_year nd s = Some (y, s4)"
  shows "\<exists>pre. s = pre @ s4"
proof -
  from assms obtain a s1 b s2 c s3 d where
    r: "read_digit nd s = Some (a, s1)" "read_digit nd s1 = Some (b, s2)"
       "read_digit nd s2 = Some (c, s3)" "read_digit nd s3 = Some (d, s4)"
    by (auto simp: read_year_def split: option.splits)
  from r [THEN read_digit_shape] obtain p1 p2 p3 p4 where
    "s = p1 @ s1" "s1 = p2 @ s2" "s2 = p3 @ s3" "s3 = p4 @ s4"
    by blast
  then have "s = (p1 @ p2 @ p3 @ p4) @ s4" by simp
  then show ?thesis by blast
qed

lemma in_class_not_space:
  "in_class CHR ''0'' CHR ''9'' c \<Longrightarrow> \<not> is_space c"
  by (auto simp: in_class_def is_space_def)

lemma in_class_widen:
  "in_class CHR ''1'' CHR ''9'' c \<Longrightarrow> in_class CHR ''0'' CHR ''9'' c"
  "in_class CHR ''0'' CHR ''1'' c \<Longrightarrow> in_class CHR ''0'' CHR ''9'' c"
  by (auto simp: in_class_def)

lemma match_day_last:
  assumes "match_day nd ds = Some d"
  shows "ds \<noteq> [] \<and> \<not> is_space (last ds)"
proof (cases "(nd, ds)" rule: match_day.cases)
  case (1 nd')
  with assms show ?thesis by simp
next
  case (2 nd' a)
  with assms show ?thesis
    by (auto simp: in_class_not_space in_class_widen split: if_splits)
next
  case (3 nd' a b bs)
  then have ds: "ds = a # b # bs" by simp
  show ?thesis
  proof (cases "bs = [] \<and> in_class CHR ''0'' CHR ''9'' b")
    case True
    with ds show ?thesis by (simp add: in_class_not_space)
  next
    case False
    with assms ds obtain v where "read_digit nd (b # bs) = Some (v, [])"
      by (auto simp: in_class_widen split: if_splits option.splits)
    from read_digit_shape [OF this] have "\<not> is_space (last (b # bs))" by auto
    with ds show ?thesis by simp
  qed
qed

lemma split_month_day_suffix:
  "split_month_day r = Some (ms, ds) \<Longrightarrow> \<exists>pre. r = pre @ ds"
  by (cases r rule: split_month_day.cases) (auto split: if_splits list.splits)

text \<open>
  A string that parses as a date is not empty and does not end in white space, and
  what it parses to is a calendar date at midnight.
\<close>

lemma strptime_parts:
  assumes "strptime nd s = Some t"
  obtains y s5 ms ds m d where "read_year nd s = Some (y, CHR ''-'' # s5)"
    "split_month_day s5 = Some (ms, ds)" "match_month ms = Some m"
    "match_day nd ds = Some d" "make_date y m d = Some t"
  using assms
  by (auto simp: strptime_def split: option.splits list.splits if_splits)

lemma strptime_last:
  assumes "strptime nd s = Some t"
  shows "s \<noteq> [] \<and> \<not> is_space (last s)"
proof -
  from assms obtain y s5 ms ds m d where
    ry: "read_year nd s = Some (y, CHR ''-'' # s5)"
    and sp: "split_month_day s5 = Some (ms, ds)" and md: "match_day nd ds = Some d"
    by (rule strptime_parts)
  from read_year_shape [OF ry] obtain p where "s = p @ CHR ''-'' # s5" by blast
  moreover from split_month_day_suffix [OF sp] obtain q where "s5 = q @ ds" by blast
  ultimately have s: "s = (p @ CHR ''-'' # q) @ ds" by simp
  from match_day_last [OF md] have ds: "ds \<noteq> []" "\<not> is_space (last ds)" by simp_all
  from s ds(1) have "s \<noteq> []" by auto
  moreover from s ds(1) have "last s = last ds"
    by (metis last_appendR)
  ultimately show ?thesis using ds(2) by simp
qed

lemma strptime_is_date:
  assumes "strptime nd s = Some t"
  shows "is_date t \<and> dt_time t = 0"
proof -
  from assms obtain y m d where "make_date y m d = Some t"
    by (rule strptime_parts)
  then show ?thesis
    by (auto simp: make_date_def is_date_def split: if_splits)
qed

lemma strip_unchanged:
  assumes "s \<noteq> []" "\<not> is_space (hd s)" "\<not> is_space (last s)"
  shows "strip s = s"
proof -
  from assms(1,2) have "dropWhile is_space s = s"
    by (cases s) auto
  moreover from assms(1,3) have "dropWhile is_space (rev s) = rev s"
    by (cases "rev s") (auto simp: hd_rev)
  ultimately show ?thesis by (simp add: strip_def)
qed

lemma strip_query:
  assumes "\<not> is_space c" "strptime nd s = Some t"
  shows "strip (c # pre @ s) = c # pre @ s"
proof (rule strip_unchanged)
  from assms(2) have s: "s \<noteq> []" "\<not> is_space (last s)"
    using strptime_last by blast+
  show "c # pre @ s \<noteq> []" by simp
  show "\<not> is_space (hd (c # pre @ s))" using assms(1) by simp
  from s(1) have "last (c # pre @ s) = last s" by simp
  then show "\<not> is_space (last (c # pre @ s))" using s(2) by simp
qed

lemma strptime_truthy: "strptime nd s = Some t \<Longrightarrow> truthy_str (Some s)"
  using strptime_last by (auto simp: truthy_str_def)

lemma not_space_o: "\<not> is_space CHR ''o''"
  by (simp add: is_space_def)

lemma not_space_a: "\<not> is_space CHR ''a''"
  by (simp add: is_space_def)

text \<open>Evaluating the parser: an ASCII digit, and the full-width digit five (U+FF15).\<close>

lemma read_digit_ascii:
  "is_digit c \<Longrightarrow> read_digit nd (c # r) = Some (digit_value c, r)"
  by (simp add: read_digit_def utf8_head_def decimal_def is_digit_def digit_value_def Let_def)

lemmas parse_simps =
  strptime_def read_year_def read_digit_ascii is_digit_def digit_value_def in_class_def
  make_date_def days_in_month_def is_leap_def DAYS_IN_MONTH_def MINYEAR_def MAXYEAR_def

lemma fullwidth_five:
  "read_digit unicode_nd (CHR 0xEF # CHR 0xBC # CHR 0x95 # r) = Some (5, r)"
proof -
  have "utf8_head (CHR 0xEF # CHR 0xBC # CHR 0x95 # r) = Some (65301, r)"
    by (simp add: utf8_head_def is_cont_def cont_bits_def Let_def)
  moreover have "unicode_nd 65301 = Some 5"
    by (simp add: unicode_nd_def nd_zeros_def)
  ultimately show ?thesis
    by (simp add: read_digit_def decimal_def)
qed

text \<open>
  C4. When \<^verbatim>\<open>--after\<close> and \<^verbatim>\<open>--before\<close> both parse and denote the same day, and
  neither \<^verbatim>\<open>--on\<close> nor a trailing window is in force, the builder returns the
  single-day fragment \<open>on:<day>\<close>, written with the start day as given, and not the
  two-operator fragment. This holds on every runtime, with the digits of any script.
\<close>

theorem equal_days_collapse:
  assumes "\<not> truthy_str (arg_on a)" and "\<not> truthy_int (arg_days a)"
    and "arg_after a = Some s" and "arg_before a = Some e"
    and "strptime (rt_decimal rt) s = Some d" and "strptime (rt_decimal rt) e = Some d"
  shows "build_date_query rt a = Inr (''on:'' @ s)
         \<and> build_date_query rt a \<noteq> Inr (''after:'' @ s @ '' before:'' @ e)"
proof -
  have "strip (''on:'' @ s) = ''on:'' @ s"
    using strip_query [OF not_space_o assms(5), of "''n:''"] by simp
  then have "build_date_query rt a = Inr (''on:'' @ s)"
    using assms strptime_truthy [OF assms(5)] strptime_truthy [OF assms(6)]
    by (simp add: build_date_query_def parse_arg_def fmt_str_def)
  then show ?thesis by simp
qed

theorem equal_days_collapse_witness:
  "strptime (rt_decimal example_runtime) (''2024-01-1'' @ [CHR 0xEF, CHR 0xBC, CHR 0x95])
     = Some \<lparr>dt_year = 2024, dt_month = 1, dt_day = 15, dt_time = 0\<rparr>
   \<and> strptime (rt_decimal example_runtime) ''2024-01-15''
     = Some \<lparr>dt_year = 2024, dt_month = 1, dt_day = 15, dt_time = 0\<rparr>
   \<and> build_date_query example_runtime
        \<lparr>arg_on = None, arg_after = Some (''2024-01-1'' @ [CHR 0xEF, CHR 0xBC, CHR 0x95]),
         arg_before = Some ''2024-01-15'', arg_days = None\<rparr>
       = Inr (''on:2024-01-1'' @ [CHR 0xEF, CHR 0xBC, CHR 0x95])
   \<and> build_date_query example_runtime
        \<lparr>arg_on = None, arg_after = Some ''2024-06-15'', arg_before = Some ''2024-06-15'',
         arg_days = None\<rparr>
       = Inr ''on:2024-06-15''"
proof -
  let ?d = "\<lparr>dt_year = 2024, dt_month = 1, dt_day = 15, dt_time = 0\<rparr>"
  let ?s = "''2024-01-1'' @ [CHR 0xEF, CHR 0xBC, CHR 0x95]"
  let ?a = "\<lparr>arg_on = None, arg_after = Some ?s, arg_before = Some ''2024-01-15'',
             arg_days = None\<rparr>"
  let ?b = "\<lparr>arg_on = None, arg_after = Some ''2024-06-15'', arg_before = Some ''2024-06-15'',
             arg_days = None\<rparr>"
  have h1: "strptime (rt_decimal example_runtime) ?s = Some ?d"
    by (simp add: example_runtime_def parse_simps fullwidth_five)
  have h2: "strptime (rt_decimal example_runtime) ''2024-01-15'' = Some ?d"
    by (simp add: example_runtime_def parse_simps fullwidth_five)
  have h3: "strptime (rt_decimal example_runtime) ''2024-06-15''
              = Some \<lparr>dt_year = 2024, dt_month = 6, dt_day = 15, dt_time = 0\<rparr>"
    by (simp add: example_runtime_def parse_simps fullwidth_five)
  have a: "\<not> truthy_str (arg_on ?a)" "\<not> truthy_int (arg_days ?a)"
    "arg_after ?a = Some ?s" "arg_before ?a = Some ''2024-01-15''"
    by (simp_all add: truthy_str_def truthy_int_def)
  have b: "\<not> truthy_str (arg_on ?b)" "\<not> truthy_int (arg_days ?b)"
    "arg_after ?b = Some ''2024-06-15''" "arg_before ?b = Some ''2024-06-15''"
    by (simp_all add: truthy_str_def truthy_int_def)
  from equal_days_collapse [OF a h1 h2] equal_days_collapse [OF b h3 h3] h1 h2
  show ?thesis by simp
qed

text \<open>
  C5. When \<^verbatim>\<open>--after\<close> and \<^verbatim>\<open>--before\<close> both parse and the start is strictly after
  the end, and neither \<^verbatim>\<open>--on\<close> nor a trailing window is in force, the builder raises
  the ordering \<^verbatim>\<open>ValueError\<close>, whose message contains both date strings as given, and
  returns no fragment. This holds on every runtime, with the digits of any script.
\<close>

theorem start_after_end_fails:
  assumes "\<not> truthy_str (arg_on a)" and "\<not> truthy_int (arg_days a)"
    and "arg_after a = Some s" and "arg_before a = Some e"
    and "strptime (rt_decimal rt) s = Some ds" and "strptime (rt_decimal rt) e = Some de"
    and "dt_gt ds de"
  shows "build_date_query rt a = Inl (ValueError (msg_order s e))
         \<and> sublist s (msg_order s e) \<and> sublist e (msg_order s e)
         \<and> (\<forall>fragment. build_date_query rt a \<noteq> Inr fragment)"
proof -
  have ne: "ds \<noteq> de" using assms(7) by (auto simp: dt_gt_def)
  have 1: "build_date_query rt a = Inl (ValueError (msg_order s e))"
    using assms ne strptime_truthy [OF assms(5)] strptime_truthy [OF assms(6)]
    by (simp add: build_date_query_def parse_arg_def fmt_str_def)
  have 2: "sublist s (msg_order s e)"
    unfolding msg_order_def by (rule sublist_appendI)
  have "msg_order s e = (msg_order_1 @ s @ msg_order_2) @ e @ msg_order_3"
    by (simp add: msg_order_def)
  then have 3: "sublist e (msg_order s e)"
    by (metis sublist_appendI)
  from 1 2 3 show ?thesis by simp
qed

theorem start_after_end_fails_witness:
  "strptime (rt_decimal example_runtime) (''2024-01-2'' @ [CHR 0xEF, CHR 0xBC, CHR 0x95])
     = Some \<lparr>dt_year = 2024, dt_month = 1, dt_day = 25, dt_time = 0\<rparr>
   \<and> strptime (rt_decimal example_runtime) ''2024-01-15''
     = Some \<lparr>dt_year = 2024, dt_month = 1, dt_day = 15, dt_time = 0\<rparr>
   \<and> dt_gt \<lparr>dt_year = 2024, dt_month = 1, dt_day = 25, dt_time = 0\<rparr>
            \<lparr>dt_year = 2024, dt_month = 1, dt_day = 15, dt_time = 0\<rparr>
   \<and> build_date_query example_runtime
        \<lparr>arg_on = None, arg_after = Some (''2024-01-2'' @ [CHR 0xEF, CHR 0xBC, CHR 0x95]),
         arg_before = Some ''2024-01-15'', arg_days = None\<rparr>
       = Inl (ValueError (msg_order (''2024-01-2'' @ [CHR 0xEF, CHR 0xBC, CHR 0x95])
                                    ''2024-01-15''))
   \<and> build_date_query example_runtime
        \<lparr>arg_on = None, arg_after = Some ''2024-12-31'', arg_before = Some ''2024-01-01'',
         arg_days = None\<rparr>
       = Inl (ValueError (msg_order ''2024-12-31'' ''2024-01-01''))
   \<and> sublist ''2024-12-31'' (msg_order ''2024-12-31'' ''2024-01-01'')
   \<and> sublist ''2024-01-01'' (msg_order ''2024-12-31'' ''2024-01-01'')"
proof -
  let ?s = "''2024-01-2'' @ [CHR 0xEF, CHR 0xBC, CHR 0x95]"
  let ?ds = "\<lparr>dt_year = 2024, dt_month = 1, dt_day = 25, dt_time = 0\<rparr>"
  let ?de = "\<lparr>dt_year = 2024, dt_month = 1, dt_day = 15, dt_time = 0\<rparr>"
  let ?a = "\<lparr>arg_on = None, arg_after = Some ?s, arg_before = Some ''2024-01-15'',
             arg_days = None\<rparr>"
  let ?b = "\<lparr>arg_on = None, arg_after = Some ''2024-12-31'', arg_before = Some ''2024-01-01'',
             arg_days = None\<rparr>"
  have h1: "strptime (rt_decimal example_runtime) ?s = Some ?ds"
    by (simp add: example_runtime_def parse_simps fullwidth_five)
  have h2: "strptime (rt_decimal example_runtime) ''2024-01-15'' = Some ?de"
    by (simp add: example_runtime_def parse_simps fullwidth_five)
  have h3: "dt_gt ?ds ?de"
    by (simp add: dt_gt_def)
  have g1: "strptime (rt_decimal example_runtime) ''2024-12-31''
              = Some \<lparr>dt_year = 2024, dt_month = 12, dt_day = 31, dt_time = 0\<rparr>"
    by (simp add: example_runtime_def parse_simps fullwidth_five)
  have g2: "strptime (rt_decimal example_runtime) ''2024-01-01''
              = Some \<lparr>dt_year = 2024, dt_month = 1, dt_day = 1, dt_time = 0\<rparr>"
    by (simp add: example_runtime_def parse_simps fullwidth_five)
  have g3: "dt_gt \<lparr>dt_year = 2024, dt_month = 12, dt_day = 31, dt_time = 0\<rparr>
                  \<lparr>dt_year = 2024, dt_month = 1, dt_day = 1, dt_time = 0\<rparr>"
    by (simp add: dt_gt_def)
  have a: "\<not> truthy_str (arg_on ?a)" "\<not> truthy_int (arg_days ?a)"
    "arg_after ?a = Some ?s" "arg_before ?a = Some ''2024-01-15''"
    by (simp_all add: truthy_str_def truthy_int_def)
  have b: "\<not> truthy_str (arg_on ?b)" "\<not> truthy_int (arg_days ?b)"
    "arg_after ?b = Some ''2024-12-31''" "arg_before ?b = Some ''2024-01-01''"
    by (simp_all add: truthy_str_def truthy_int_def)
  from h1 h2 h3 start_after_end_fails [OF a h1 h2 h3] start_after_end_fails [OF b g1 g2 g3]
  show ?thesis by blast
qed

section \<open>Properties of the calendar\<close>

lemma div_unique_int:
  "0 < (b::int) \<Longrightarrow> a = b * q + r \<Longrightarrow> 0 \<le> r \<Longrightarrow> r < b \<Longrightarrow> a div b = q"
  by (metis int_div_pos_eq)

lemma mod_unique_int:
  "0 < (b::int) \<Longrightarrow> a = b * q + r \<Longrightarrow> 0 \<le> r \<Longrightarrow> r < b \<Longrightarrow> a mod b = r"
  by (metis int_mod_pos_eq)

text \<open>The days before the year \<open>400a + 100b + 4c + e + 1\<close>, cycle by cycle.\<close>

lemma days_before_year_cycles:
  assumes "0 \<le> b" "b \<le> 3" "0 \<le> c" "c \<le> 24" "0 \<le> e" "e \<le> 3"
  shows "days_before_year (400 * a + 100 * b + 4 * c + e + 1)
           = 146097 * a + 36524 * b + 1461 * c + 365 * e"
proof -
  define y where "y = 400 * a + 100 * b + 4 * c + e"
  have d4: "y div 4 = 100 * a + 25 * b + c"
    by (rule div_unique_int [where r = e]) (use assms in \<open>simp_all add: y_def\<close>)
  have d100: "y div 100 = 4 * a + b"
    by (rule div_unique_int [where r = "4 * c + e"]) (use assms in \<open>simp_all add: y_def\<close>)
  have d400: "y div 400 = a"
    by (rule div_unique_int [where r = "100 * b + 4 * c + e"]) (use assms in \<open>simp_all add: y_def\<close>)
  have "days_before_year (y + 1) = y * 365 + y div 4 - y div 100 + y div 400"
    by (simp add: days_before_year_def Let_def)
  then show ?thesis
    unfolding d4 d100 d400 by (simp add: y_def)
qed

lemma is_leap_cycles:
  assumes "0 \<le> b" "b \<le> 3" "0 \<le> c" "c \<le> 24" "0 \<le> e" "e \<le> 3"
  shows "is_leap (400 * a + 100 * b + 4 * c + e + 1) = (e = 3 \<and> (c \<noteq> 24 \<or> b = 3))"
proof -
  define y where "y = 400 * a + 100 * b + 4 * c + e + 1"
  have "is_leap y = (e = 3 \<and> (c \<noteq> 24 \<or> b = 3))"
  proof (cases "e = 3")
    case False
    have "y mod 4 = e + 1"
      by (rule mod_unique_int [where q = "100 * a + 25 * b + c"])
         (use assms False in \<open>simp_all add: y_def\<close>)
    then show ?thesis using False assms by (simp add: is_leap_def)
  next
    case True
    have m4: "y mod 4 = 0"
      by (rule mod_unique_int [where q = "100 * a + 25 * b + c + 1"])
         (use assms True in \<open>simp_all add: y_def\<close>)
    show ?thesis
    proof (cases "c = 24")
      case False
      have "y mod 100 = 4 * c + 4"
        by (rule mod_unique_int [where q = "4 * a + b"])
           (use assms True False in \<open>simp_all add: y_def\<close>)
      then show ?thesis using m4 True False assms by (simp add: is_leap_def)
    next
      case c24: True
      have m100: "y mod 100 = 0"
        by (rule mod_unique_int [where q = "4 * a + b + 1"])
           (use assms True c24 in \<open>simp_all add: y_def\<close>)
      show ?thesis
      proof (cases "b = 3")
        case True
        have "y mod 400 = 0"
          by (rule mod_unique_int [where q = "a + 1"])
             (use assms \<open>e = 3\<close> c24 True in \<open>simp_all add: y_def\<close>)
        then show ?thesis using m4 m100 \<open>e = 3\<close> c24 True by (simp add: is_leap_def)
      next
        case False
        have "y mod 400 = 100 * b + 100"
          by (rule mod_unique_int [where q = a])
             (use assms \<open>e = 3\<close> c24 False in \<open>simp_all add: y_def\<close>)
        then show ?thesis using m4 m100 \<open>e = 3\<close> c24 False assms
          by (simp add: is_leap_def)
      qed
    qed
  qed
  then show ?thesis by (simp add: y_def)
qed

lemma month_cases:
  assumes "1 \<le> (m::int)" "m \<le> 12"
  obtains "m = 1" | "m = 2" | "m = 3" | "m = 4" | "m = 5" | "m = 6"
        | "m = 7" | "m = 8" | "m = 9" | "m = 10" | "m = 11" | "m = 12"
proof -
  from assms have "m = 1 \<or> m = 2 \<or> m = 3 \<or> m = 4 \<or> m = 5 \<or> m = 6
      \<or> m = 7 \<or> m = 8 \<or> m = 9 \<or> m = 10 \<or> m = 11 \<or> m = 12"
    by arith
  then show thesis using that by blast
qed

lemma month_and_day_sum:
  assumes "0 \<le> n" "n < 365" "month_and_day L n = (m, d)"
  shows "1 \<le> m \<and> m \<le> 12 \<and> 1 \<le> d
         \<and> d \<le> DAYS_IN_MONTH ! nat m + (if m = 2 \<and> L then 1 else 0)
         \<and> DAYS_BEFORE_MONTH ! nat m + (if m > 2 \<and> L then 1 else 0) + d = n + 1"
proof -
  define q where "q = (n + 50) div 32"
  have lo: "32 * q \<le> n + 50" and hi: "n + 50 < 32 * q + 32"
    unfolding q_def by presburger+
  have q: "1 \<le> q" "q \<le> 12" using assms(1,2) lo hi by linarith+
  from q show ?thesis
  proof (cases rule: month_cases)
    case 1
    with assms(3) lo hi assms(1) show ?thesis
      by (auto simp: month_and_day_def q_def [symmetric] DAYS_BEFORE_MONTH_def DAYS_IN_MONTH_def
          Let_def split: if_splits)
  qed (use assms(3) lo hi assms(1,2) in
        \<open>auto simp: month_and_day_def q_def [symmetric] DAYS_BEFORE_MONTH_def DAYS_IN_MONTH_def
          Let_def split: if_splits\<close>)
qed


lemma days_before_month_bounds:
  assumes "1 \<le> m" "m \<le> 12"
  shows "0 \<le> days_before_month y m \<and> days_before_month y m \<le> 335"
  using assms(1,2)
  by (rule month_cases) (simp_all add: days_before_month_def DAYS_BEFORE_MONTH_def)

lemma days_in_month_le:
  assumes "1 \<le> m" "m \<le> 12"
  shows "days_in_month y m \<le> 31"
  using assms(1,2)
  by (rule month_cases) (simp_all add: days_in_month_def DAYS_IN_MONTH_def)

lemma days_before_year_bounds:
  assumes "1 \<le> y" "y \<le> 9999"
  shows "0 \<le> days_before_year y \<and> days_before_year y \<le> 3652000"
proof -
  define z where "z = y - 1"
  define q4 where "q4 = z div 4"
  define q100 where "q100 = z div 100"
  define q400 where "q400 = z div 400"
  have z: "0 \<le> z" "z \<le> 9998" using assms by (simp_all add: z_def)
  have a: "q100 \<le> q4"
    unfolding q100_def q4_def using z(1) by (simp add: zdiv_mono2)
  have b: "0 \<le> q400" "0 \<le> q100"
    using z(1) by (simp_all add: q400_def q100_def)
  have c: "q4 \<le> 2499" "q400 \<le> 24"
    using z(2) by (simp_all add: q4_def q400_def)
  have "days_before_year y = z * 365 + q4 - q100 + q400"
    by (simp add: days_before_year_def Let_def z_def q4_def q100_def q400_def)
  then show ?thesis
    using z a b c by linarith
qed

lemma make_date_ordinal:
  assumes "make_date y m d = Some t"
  shows "1 \<le> toordinal t \<and> toordinal t \<le> 3652366"
proof -
  from assms have r: "1 \<le> y" "y \<le> 9999" "1 \<le> m" "m \<le> 12" "1 \<le> d" "d \<le> days_in_month y m"
    and t: "dt_year t = y" "dt_month t = m" "dt_day t = d"
    by (auto simp: make_date_def MINYEAR_def MAXYEAR_def split: if_splits)
  from days_before_year_bounds [OF r(1,2)] days_before_month_bounds [OF r(3,4), of y]
    days_in_month_le [OF r(3,4), of y] r(5,6)
  show ?thesis
    by (simp add: toordinal_def ymd2ord_def t)
qed

lemma strptime_ordinal:
  assumes "strptime nd s = Some t"
  shows "1 \<le> toordinal t \<and> toordinal t \<le> 3652366"
proof -
  from assms obtain y m d where "make_date y m d = Some t"
    by (rule strptime_parts)
  then show ?thesis by (rule make_date_ordinal)
qed




lemma days_before_next_month:
  assumes "1 \<le> m" "m \<le> 12"
  shows "m \<le> 11 \<longrightarrow>
         DAYS_BEFORE_MONTH ! nat (m + 1) + (if m + 1 > 2 \<and> L then 1 else 0)
           = DAYS_BEFORE_MONTH ! nat m + (if m > 2 \<and> L then 1 else 0)
             + (DAYS_IN_MONTH ! nat m + (if m = 2 \<and> L then 1 else 0))"
  using assms
  by (rule month_cases) (simp_all add: DAYS_BEFORE_MONTH_def DAYS_IN_MONTH_def)

lemma month_and_day_inverse:
  assumes "1 \<le> m" "m \<le> 12" "1 \<le> d"
    and "d \<le> DAYS_IN_MONTH ! nat m + (if m = 2 \<and> L then 1 else 0)"
    and "n = DAYS_BEFORE_MONTH ! nat m + (if m > 2 \<and> L then 1 else 0) + d - 1"
    and "n < 365"
  shows "month_and_day L n = (m, d)"
proof -
  define q where "q = (n + 50) div 32"
  define pre where "pre = DAYS_BEFORE_MONTH ! nat m + (if m > 2 \<and> L then 1 else 0)"
  define len where "len = DAYS_IN_MONTH ! nat m + (if m = 2 \<and> L then 1 else 0)"
  have n: "n = pre + d - 1" using assms(5) by (simp add: pre_def)
  have d: "1 \<le> d" "d \<le> len" using assms(3,4) by (simp_all add: len_def)
  have lo: "32 * q \<le> n + 50" and hi: "n + 50 < 32 * q + 32"
    unfolding q_def by presburger+
  from assms(1,2) have qm: "q = m \<or> q = m + 1"
    by (rule month_cases)
       (use assms(3,4,5) lo hi in
         \<open>auto simp: DAYS_BEFORE_MONTH_def DAYS_IN_MONTH_def split: if_splits\<close>)
  from qm show ?thesis
  proof
    assume "q = m"
    then have "(n + 50) div 32 = m" by (simp add: q_def)
    then show ?thesis
      using n d(1) by (simp add: month_and_day_def Let_def pre_def [symmetric])
  next
    assume q: "q = m + 1"
    with lo assms(6) have m11: "m \<le> 11" by linarith
    from q have e: "(n + 50) div 32 = m + 1" by (simp add: q_def)
    from days_before_next_month [OF assms(1,2), of L] m11
    have nx: "DAYS_BEFORE_MONTH ! nat (m + 1) + (if m + 1 > 2 \<and> L then 1 else 0) = pre + len"
      by (simp add: pre_def len_def)
    have gt: "pre + len > n" using n d(2) by simp
    show ?thesis
      unfolding month_and_day_def Let_def e nx
      using gt n by (simp add: len_def [symmetric])
  qed
qed


lemma year_bound:
  assumes "146097 * a + 36524 * b + 1461 * c + 365 * e \<le> 3652058"
    and "0 \<le> a" "0 \<le> b" "b \<le> 3" "0 \<le> c" "c \<le> 24" "0 \<le> e" "e \<le> (3::int)"
  shows "400 * a + 100 * b + 4 * c + e \<le> 9998"
proof -
  consider "a \<le> 23" | "a = 24" "b \<le> 2" | "a = 24" "b = 3" "c \<le> 23"
    | "a = 24" "b = 3" "c = 24"
    using assms by linarith
  then show ?thesis
    using assms by cases linarith+
qed

text \<open>
  The date of an ordinal of the supported range is a calendar date, and its ordinal
  is the one it came from.
\<close>

lemma ord2ymd_date:
  assumes "1 \<le> k" "k \<le> MAXORDINAL"
  obtains y m d where "ord2ymd k = (y, m, d)" "ymd2ord y m d = k"
    "1 \<le> y" "y \<le> 9999" "1 \<le> m" "m \<le> 12" "1 \<le> d" "d \<le> days_in_month y m"
proof -
  define n0 where "n0 = k - 1"
  define a where "a = n0 div 146097"
  define r400 where "r400 = n0 mod 146097"
  define b where "b = r400 div 36524"
  define r100 where "r100 = r400 mod 36524"
  define c where "c = r100 div 1461"
  define r4 where "r4 = r100 mod 1461"
  define e where "e = r4 div 365"
  define n where "n = r4 mod 365"
  have n0: "0 \<le> n0" "n0 \<le> 3652058"
    using assms by (simp_all add: n0_def MAXORDINAL_def)
  have a: "0 \<le> a" using n0(1) by (simp add: a_def)
  have s400: "n0 = 146097 * a + r400" "0 \<le> r400" "r400 < 146097"
    by (simp_all add: a_def r400_def)
  have s100: "r400 = 36524 * b + r100" "0 \<le> r100" "r100 < 36524"
    by (simp_all add: b_def r100_def)
  have s4: "r100 = 1461 * c + r4" "0 \<le> r4" "r4 < 1461"
    by (simp_all add: c_def r4_def)
  have s1: "r4 = 365 * e + n" "0 \<le> n" "n < 365"
    by (simp_all add: e_def n_def)
  have "r400 div 36524 \<le> 146096 div 36524"
    by (rule zdiv_mono1) (use s400(3) in simp_all)
  then have b: "0 \<le> b" "b \<le> 4"
    using s400(2) by (simp_all add: b_def)
  have "r100 div 1461 \<le> 36523 div 1461"
    by (rule zdiv_mono1) (use s100(3) in simp_all)
  then have c: "0 \<le> c" "c \<le> 24"
    using s100(2) by (simp_all add: c_def)
  have "r4 div 365 \<le> 1460 div 365"
    by (rule zdiv_mono1) (use s4(3) in simp_all)
  then have e: "0 \<le> e" "e \<le> 4"
    using s4(2) by (simp_all add: e_def)
  have k: "k = 146097 * a + 36524 * b + 1461 * c + 365 * e + n + 1"
    using s400(1) s100(1) s4(1) s1(1) by (simp add: n0_def)
  have unfold: "ord2ymd k =
      (if e = 4 \<or> b = 4 then (a * 400 + 1 + b * 100 + c * 4 + e - 1, 12, 31)
       else (a * 400 + 1 + b * 100 + c * 4 + e, month_and_day (e = 3 \<and> (c \<noteq> 24 \<or> b = 3)) n))"
    by (simp add: ord2ymd_def Let_def n0_def [symmetric] a_def [symmetric] r400_def [symmetric]
        b_def [symmetric] r100_def [symmetric] c_def [symmetric] r4_def [symmetric]
        e_def [symmetric] n_def [symmetric])
  show ?thesis
  proof (cases "b = 4")
    case True
    with s400 s100 s4 s1 c e have z: "c = 0" "e = 0" "n = 0" by linarith+
    define y where "y = 400 * a + 100 * 3 + 4 * 24 + 3 + 1"
    have o: "ord2ymd k = (y, 12, 31)"
      using True z by (simp add: unfold y_def)
    have dby: "days_before_year y = 146097 * a + 36524 * 3 + 1461 * 24 + 365 * 3"
      unfolding y_def by (rule days_before_year_cycles) simp_all
    have leap: "is_leap y = (3 = (3::int) \<and> (24 \<noteq> (24::int) \<or> 3 = (3::int)))"
      unfolding y_def by (rule is_leap_cycles) simp_all
    have ord: "ymd2ord y 12 31 = k"
      unfolding ymd2ord_def days_before_month_def dby leap
      using True z k by (simp add: DAYS_BEFORE_MONTH_def)
    have "146097 * a + 36524 * 3 + 1461 * 24 + 365 * 3 \<le> 3652058"
      using k True z n0(2) by (simp add: n0_def)
    from year_bound [OF this a] have "y \<le> 9999" by (simp add: y_def)
    moreover have "1 \<le> y" using a by (simp add: y_def)
    moreover have "(31::int) \<le> days_in_month y 12"
      by (simp add: days_in_month_def DAYS_IN_MONTH_def)
    ultimately show ?thesis using that [OF o ord] by simp
  next
    case b3: False
    with b have b': "b \<le> 3" by simp
    show ?thesis
    proof (cases "e = 4")
      case True
      with s100 s4 s1 c b' have z: "n = 0" "c \<le> 23" by linarith+
      define y where "y = 400 * a + 100 * b + 4 * c + 3 + 1"
      have o: "ord2ymd k = (y, 12, 31)"
        using True b3 by (simp add: unfold y_def)
      have dby: "days_before_year y = 146097 * a + 36524 * b + 1461 * c + 365 * 3"
        unfolding y_def by (rule days_before_year_cycles) (use b b' c in simp_all)
      have leap: "is_leap y = (3 = (3::int) \<and> (c \<noteq> 24 \<or> b = 3))"
        unfolding y_def by (rule is_leap_cycles) (use b b' c in simp_all)
      have ord: "ymd2ord y 12 31 = k"
        unfolding ymd2ord_def days_before_month_def dby leap
        using True z k by (simp add: DAYS_BEFORE_MONTH_def)
      have "146097 * a + 36524 * b + 1461 * c + 365 * 3 \<le> 3652058"
        using k True z n0(2) by (simp add: n0_def)
      from year_bound [OF this a b(1) b' c] have "y \<le> 9999" by (simp add: y_def)
      moreover have "1 \<le> y" using a b(1) c(1) by (simp add: y_def)
      moreover have "(31::int) \<le> days_in_month y 12"
        by (simp add: days_in_month_def DAYS_IN_MONTH_def)
      ultimately show ?thesis using that [OF o ord] by simp
    next
      case False
      with e have e': "e \<le> 3" by simp
      define L where "L = (e = 3 \<and> (c \<noteq> 24 \<or> b = 3))"
      define y where "y = 400 * a + 100 * b + 4 * c + e + 1"
      obtain m d where md: "month_and_day L n = (m, d)" by (cases "month_and_day L n")
      note sum = month_and_day_sum [OF s1(2,3) md]
      have o: "ord2ymd k = (y, m, d)"
        using False b3 md by (simp add: unfold L_def y_def)
      have dby: "days_before_year y = 146097 * a + 36524 * b + 1461 * c + 365 * e"
        unfolding y_def by (rule days_before_year_cycles) (use b b' c e e' in simp_all)
      have leap: "is_leap y = L"
        unfolding L_def y_def by (rule is_leap_cycles) (use b b' c e e' in simp_all)
      have ord: "ymd2ord y m d = k"
        unfolding ymd2ord_def days_before_month_def dby leap
        using sum k by simp
      have "146097 * a + 36524 * b + 1461 * c + 365 * e \<le> 3652058"
        using k s1(2) n0(2) by (simp add: n0_def)
      from year_bound [OF this a b(1) b' c e(1) e'] have "y \<le> 9999" by (simp add: y_def)
      moreover have "1 \<le> y" using a b(1) c(1) e(1) by (simp add: y_def)
      moreover have "d \<le> days_in_month y m"
        using sum by (auto simp: days_in_month_def leap DAYS_IN_MONTH_def)
      ultimately show ?thesis using that [OF o ord] sum by simp
    qed
  qed
qed


lemma month_span:
  assumes "1 \<le> m" "m \<le> 12"
  shows "0 \<le> DAYS_BEFORE_MONTH ! nat m + (if m > 2 \<and> L then 1 else 0)
         \<and> DAYS_BEFORE_MONTH ! nat m + (if m > 2 \<and> L then 1 else 0)
             + (DAYS_IN_MONTH ! nat m + (if m = 2 \<and> L then 1 else 0))
           \<le> 365 + (if L then 1 else 0)
         \<and> (m \<noteq> 12 \<longrightarrow>
              DAYS_BEFORE_MONTH ! nat m + (if m > 2 \<and> L then 1 else 0)
                + (DAYS_IN_MONTH ! nat m + (if m = 2 \<and> L then 1 else 0)) \<le> 335)"
  using assms
  by (rule month_cases) (simp_all add: DAYS_BEFORE_MONTH_def DAYS_IN_MONTH_def)

text \<open>Conversely, the ordinal of a calendar date leads back to the date.\<close>

lemma ord2ymd_ymd2ord:
  assumes "1 \<le> y" "1 \<le> m" "m \<le> 12" "1 \<le> d" "d \<le> days_in_month y m"
  shows "ord2ymd (ymd2ord y m d) = (y, m, d)"
proof -
  define z where "z = y - 1"
  define a where "a = z div 400"
  define r where "r = z mod 400"
  define b where "b = r div 100"
  define r' where "r' = r mod 100"
  define c where "c = r' div 4"
  define e where "e = r' mod 4"
  have z: "0 \<le> z" using assms(1) by (simp add: z_def)
  have a: "0 \<le> a" using z by (simp add: a_def)
  have r: "z = 400 * a + r" "0 \<le> r" "r < 400" by (simp_all add: a_def r_def)
  have r': "r = 100 * b + r'" "0 \<le> r'" "r' < 100" by (simp_all add: b_def r'_def)
  have e: "r' = 4 * c + e" "0 \<le> e" "e \<le> 3"
    unfolding c_def e_def by presburger+
  have "r div 100 \<le> 399 div 100" by (rule zdiv_mono1) (use r(3) in simp_all)
  then have b: "0 \<le> b" "b \<le> 3" using r(2) by (simp_all add: b_def)
  have "r' div 4 \<le> 99 div 4" by (rule zdiv_mono1) (use r'(3) in simp_all)
  then have c: "0 \<le> c" "c \<le> 24" using r'(2) by (simp_all add: c_def)
  have y: "y = 400 * a + 100 * b + 4 * c + e + 1"
    using r(1) r'(1) e(1) by (simp add: z_def)
  define L where "L = (e = 3 \<and> (c \<noteq> 24 \<or> b = 3))"
  have dby: "days_before_year y = 146097 * a + 36524 * b + 1461 * c + 365 * e"
    unfolding y by (rule days_before_year_cycles) (use b c e in simp_all)
  have leap: "is_leap y = L"
    unfolding y L_def by (rule is_leap_cycles) (use b c e in simp_all)
  define pre where "pre = DAYS_BEFORE_MONTH ! nat m + (if m > 2 \<and> L then 1 else 0)"
  define len where "len = DAYS_IN_MONTH ! nat m + (if m = 2 \<and> L then 1 else 0)"
  define n where "n = pre + d - 1"
  have len: "d \<le> len"
    using assms(5) by (auto simp: days_in_month_def leap len_def DAYS_IN_MONTH_def split: if_splits)
  from month_span [OF assms(2,3), of L]
  have span: "0 \<le> pre" "pre + len \<le> 365 + (if L then 1 else 0)" "m \<noteq> 12 \<longrightarrow> pre + len \<le> 335"
    by (simp_all add: pre_def len_def)
  have n: "0 \<le> n" "n \<le> 364 + (if L then 1 else 0)"
    using span(1,2) len assms(4) by (simp_all add: n_def)
  define k where "k = ymd2ord y m d"
  have k: "k - 1 = 146097 * a + 36524 * b + 1461 * c + 365 * e + n"
    by (simp add: k_def ymd2ord_def days_before_month_def dby leap n_def pre_def)
  have "ord2ymd k = (y, m, d)"
  proof (cases "n < 365")
    case True
    have d1: "(k - 1) div 146097 = a"
      by (rule div_unique_int [where r = "36524 * b + 1461 * c + 365 * e + n"])
         (use k b c e n True in simp_all)
    have m1: "(k - 1) mod 146097 = 36524 * b + 1461 * c + 365 * e + n"
      by (rule mod_unique_int [where q = a]) (use k b c e n True in simp_all)
    have d2: "(36524 * b + 1461 * c + 365 * e + n) div 36524 = b"
      by (rule div_unique_int [where r = "1461 * c + 365 * e + n"]) (use c e n True in simp_all)
    have m2: "(36524 * b + 1461 * c + 365 * e + n) mod 36524 = 1461 * c + 365 * e + n"
      by (rule mod_unique_int [where q = b]) (use c e n True in simp_all)
    have d3: "(1461 * c + 365 * e + n) div 1461 = c"
      by (rule div_unique_int [where r = "365 * e + n"]) (use e n True in simp_all)
    have m3: "(1461 * c + 365 * e + n) mod 1461 = 365 * e + n"
      by (rule mod_unique_int [where q = c]) (use e n True in simp_all)
    have d4: "(365 * e + n) div 365 = e"
      by (rule div_unique_int [where r = n]) (use n True in simp_all)
    have m4: "(365 * e + n) mod 365 = n"
      by (rule mod_unique_int [where q = e]) (use n True in simp_all)
    have md: "month_and_day L n = (m, d)"
      by (rule month_and_day_inverse [OF assms(2,3,4)])
         (use len True in \<open>simp_all add: len_def n_def pre_def\<close>)
    have "e \<noteq> 4" "b \<noteq> 4" using e(3) b(2) by simp_all
    then show ?thesis
      unfolding ord2ymd_def Let_def d1 m1 d2 m2 d3 m3 d4 m4
      using md by (simp add: L_def y)
  next
    case False
    with n have n365: "n = 365" and L: "L" by (auto split: if_splits)
    from n365 span(3) len have m12: "m = 12"
      by (auto simp: n_def)
    from L have e3: "e = 3" and cb: "c \<noteq> 24 \<or> b = 3" by (simp_all add: L_def)
    have d31: "d = 31"
      using n365 m12 L by (simp add: n_def pre_def DAYS_BEFORE_MONTH_def)
    show ?thesis
    proof (cases "c = 24")
      case c24: True
      with cb have b3: "b = 3" by simp
      have k': "k - 1 = 146097 * a + 146096"
        using k e3 c24 b3 n365 by simp
      have d1: "(k - 1) div 146097 = a"
        by (rule div_unique_int [where r = 146096]) (use k' in simp_all)
      have m1: "(k - 1) mod 146097 = 146096"
        by (rule mod_unique_int [where q = a]) (use k' in simp_all)
      have "y = 400 * a + 400" using y e3 c24 b3 by simp
      then show ?thesis
        unfolding ord2ymd_def Let_def d1 m1
        using m12 d31 by simp
    next
      case False
      with c have c23: "c \<le> 23" by simp
      have k': "k - 1 = 146097 * a + 36524 * b + 1461 * c + 1460"
        using k e3 n365 by simp
      have d1: "(k - 1) div 146097 = a"
        by (rule div_unique_int [where r = "36524 * b + 1461 * c + 1460"])
           (use k' b c c23 in simp_all)
      have m1: "(k - 1) mod 146097 = 36524 * b + 1461 * c + 1460"
        by (rule mod_unique_int [where q = a]) (use k' b c c23 in simp_all)
      have d2: "(36524 * b + 1461 * c + 1460) div 36524 = b"
        by (rule div_unique_int [where r = "1461 * c + 1460"]) (use c c23 in simp_all)
      have m2: "(36524 * b + 1461 * c + 1460) mod 36524 = 1461 * c + 1460"
        by (rule mod_unique_int [where q = b]) (use c c23 in simp_all)
      have d3: "(1461 * c + 1460) div 1461 = c"
        by (rule div_unique_int [where r = 1460]) simp_all
      have m3: "(1461 * c + 1460) mod 1461 = 1460"
        by (rule mod_unique_int [where q = c]) simp_all
      have "y = 400 * a + 100 * b + 4 * c + 4" using y e3 by simp
      then show ?thesis
        unfolding ord2ymd_def Let_def d1 m1 d2 m2 d3 m3
        using m12 d31 by simp
    qed
  qed
  then show ?thesis by (simp add: k_def)
qed

section \<open>Properties of the trailing window\<close>

text \<open>Two calendar dates with the same ordinal are the same day.\<close>

lemma toordinal_inj:
  assumes "is_date s" "is_date t" "toordinal s = toordinal t"
  shows "dt_year s = dt_year t \<and> dt_month s = dt_month t \<and> dt_day s = dt_day t"
proof -
  have "ord2ymd (toordinal s) = (dt_year s, dt_month s, dt_day s)"
    unfolding toordinal_def
    by (rule ord2ymd_ymd2ord) (use assms(1) in \<open>simp_all add: is_date_def MINYEAR_def\<close>)
  moreover have "ord2ymd (toordinal t) = (dt_year t, dt_month t, dt_day t)"
    unfolding toordinal_def
    by (rule ord2ymd_ymd2ord) (use assms(2) in \<open>simp_all add: is_date_def MINYEAR_def\<close>)
  ultimately show ?thesis using assms(3) by simp
qed

text \<open>
  Subtracting days within the supported range gives the calendar date that many days
  before, at the same time of day.
\<close>

lemma minus_days_date:
  assumes "strptime nd e = Some end_date"
    and "0 < toordinal end_date - n" and "toordinal end_date - n \<le> MAXORDINAL"
  shows "\<exists>start. minus_days end_date n = Inr start \<and> is_date start
           \<and> toordinal start = toordinal end_date - n"
proof -
  from strptime_ordinal [OF assms(1)] assms(2,3)
  have small: "\<not> \<bar>n\<bar> > 999999999"
    unfolding MAXORDINAL_def by linarith
  from assms(2) have "1 \<le> toordinal end_date - n" by simp
  from this assms(3) obtain y m d where o: "ord2ymd (toordinal end_date - n) = (y, m, d)"
    and k: "ymd2ord y m d = toordinal end_date - n"
    and v: "1 \<le> y" "y \<le> 9999" "1 \<le> m" "m \<le> 12" "1 \<le> d" "d \<le> days_in_month y m"
    by (rule ord2ymd_date)
  define start where
    "start = \<lparr>dt_year = y, dt_month = m, dt_day = d, dt_time = dt_time end_date\<rparr>"
  have "minus_days end_date n = Inr start"
    using small assms(2,3) o by (simp add: minus_days_def Let_def start_def)
  moreover have "is_date start"
    using v by (simp add: is_date_def start_def MINYEAR_def MAXYEAR_def)
  moreover have "toordinal start = toordinal end_date - n"
    using k by (simp add: toordinal_def start_def)
  ultimately show ?thesis by blast
qed

text \<open>Evaluating the example: the end day, the start day, and its text.\<close>

lemma example_end:
  "strptime nd ''2024-12-31'' = Some \<lparr>dt_year = 2024, dt_month = 12, dt_day = 31, dt_time = 0\<rparr>"
  by (simp add: parse_simps)

lemma example_start:
  "minus_days \<lparr>dt_year = 2024, dt_month = 12, dt_day = 31, dt_time = 0\<rparr> 90
     = Inr \<lparr>dt_year = 2024, dt_month = 10, dt_day = 2, dt_time = 0\<rparr>"
  by code_simp

lemma example_start_text:
  "strftime padded \<lparr>dt_year = 2024, dt_month = 10, dt_day = 2, dt_time = 0\<rparr> = ''2024-10-02''"
proof (cases padded)
  case True
  have "strftime True \<lparr>dt_year = 2024, dt_month = 10, dt_day = 2, dt_time = 0\<rparr> = ''2024-10-02''"
    by code_simp
  with True show ?thesis by simp
next
  case False
  have "strftime False \<lparr>dt_year = 2024, dt_month = 10, dt_day = 2, dt_time = 0\<rparr> = ''2024-10-02''"
    by code_simp
  with False show ?thesis by simp
qed

text \<open>
  C3, as amended. For a non-zero number of days given with an end day that parses
  (and \<^verbatim>\<open>--on\<close> not in force), such that the end day minus the days is a day of the
  years 1 to 9999: the window start is the calendar date whose day ordinal is the end
  day's ordinal minus the days, the only such date, and the builder returns
  \<open>after:<start> before:<end>\<close>, the start as \<^verbatim>\<open>strftime\<close> prints it on the runtime and
  the end as given. For 90 days before 2024-12-31 this is
  \<open>after:2024-10-02 before:2024-12-31\<close> on every runtime. A count of 0 is handled
  exactly as no count at all.
\<close>

theorem trailing_window_anchored:
  assumes "\<not> truthy_str (arg_on a)" and "arg_days a = Some n" and "n \<noteq> 0"
    and "arg_before a = Some e" and "strptime (rt_decimal rt) e = Some end_date"
    and "0 < toordinal end_date - n" and "toordinal end_date - n \<le> MAXORDINAL"
  shows "(\<exists>start. minus_days end_date n = Inr start
            \<and> is_date start
            \<and> toordinal start = toordinal end_date - n
            \<and> (\<forall>t. is_date t \<and> toordinal t = toordinal end_date - n \<longrightarrow>
                  dt_year t = dt_year start \<and> dt_month t = dt_month start
                  \<and> dt_day t = dt_day start)
            \<and> build_date_query rt a
                = Inr (''after:'' @ strftime (rt_pads_year rt) start @ '' before:'' @ e))
         \<and> build_date_query rt (window_args 90 ''2024-12-31'')
             = Inr ''after:2024-10-02 before:2024-12-31''
         \<and> build_date_query rt (b\<lparr>arg_days := Some 0\<rparr>)
             = build_date_query rt (b\<lparr>arg_days := None\<rparr>)"
proof (intro conjI)
  from minus_days_date [OF assms(5,6,7)] obtain start
    where start: "minus_days end_date n = Inr start" "is_date start"
      "toordinal start = toordinal end_date - n"
    by blast
  have only: "\<forall>t. is_date t \<and> toordinal t = toordinal end_date - n \<longrightarrow>
                  dt_year t = dt_year start \<and> dt_month t = dt_month start
                  \<and> dt_day t = dt_day start"
    using toordinal_inj [OF _ start(2)] start(3) by simp
  have "strip (''after:'' @ strftime (rt_pads_year rt) start @ '' before:'' @ e)
          = ''after:'' @ strftime (rt_pads_year rt) start @ '' before:'' @ e"
    using strip_query [OF not_space_a assms(5),
        of "''fter:'' @ strftime (rt_pads_year rt) start @ '' before:''"]
    by simp
  then have "build_date_query rt a
               = Inr (''after:'' @ strftime (rt_pads_year rt) start @ '' before:'' @ e)"
    using assms(1,2,3,4,5) strptime_truthy [OF assms(5)] start(1)
    by (simp add: build_date_query_def truthy_int_def int_arg_def fmt_str_def)
  with start only show "\<exists>start. minus_days end_date n = Inr start
            \<and> is_date start
            \<and> toordinal start = toordinal end_date - n
            \<and> (\<forall>t. is_date t \<and> toordinal t = toordinal end_date - n \<longrightarrow>
                  dt_year t = dt_year start \<and> dt_month t = dt_month start
                  \<and> dt_day t = dt_day start)
            \<and> build_date_query rt a
                = Inr (''after:'' @ strftime (rt_pads_year rt) start @ '' before:'' @ e)"
    by blast
next
  have "strip ''after:2024-10-02 before:2024-12-31'' = ''after:2024-10-02 before:2024-12-31''"
    using strip_query [OF not_space_a example_end, of "''fter:2024-10-02 before:''"]
    by simp
  then show "build_date_query rt (window_args 90 ''2024-12-31'')
             = Inr ''after:2024-10-02 before:2024-12-31''"
    by (simp add: build_date_query_def window_args_def truthy_str_def truthy_int_def
        int_arg_def fmt_str_def example_end example_start example_start_text)
next
  show "build_date_query rt (b\<lparr>arg_days := Some 0\<rparr>)
             = build_date_query rt (b\<lparr>arg_days := None\<rparr>)"
    by (simp add: build_date_query_def truthy_int_def
        cong: sum.case_cong option.case_cong prod.case_cong if_cong)
qed

theorem trailing_window_anchored_witness:
  "\<not> truthy_str (arg_on (window_args 1 ''1000-01-01''))
   \<and> arg_days (window_args 1 ''1000-01-01'') = Some 1
   \<and> (1::int) \<noteq> 0
   \<and> arg_before (window_args 1 ''1000-01-01'') = Some ''1000-01-01''
   \<and> strptime (rt_decimal example_runtime) ''1000-01-01''
       = Some \<lparr>dt_year = 1000, dt_month = 1, dt_day = 1, dt_time = 0\<rparr>
   \<and> toordinal \<lparr>dt_year = 1000, dt_month = 1, dt_day = 1, dt_time = 0\<rparr> - 1 = 364877
   \<and> 364877 \<le> MAXORDINAL
   \<and> minus_days \<lparr>dt_year = 1000, dt_month = 1, dt_day = 1, dt_time = 0\<rparr> 1
       = Inr \<lparr>dt_year = 999, dt_month = 12, dt_day = 31, dt_time = 0\<rparr>
   \<and> toordinal \<lparr>dt_year = 999, dt_month = 12, dt_day = 31, dt_time = 0\<rparr> = 364877
   \<and> build_date_query example_runtime (window_args 1 ''1000-01-01'')
       = Inr ''after:999-12-31 before:1000-01-01''
   \<and> build_date_query padding_runtime (window_args 1 ''1000-01-01'')
       = Inr ''after:0999-12-31 before:1000-01-01''
   \<and> build_date_query example_runtime (window_args 90 ''2024-12-31'')
       = Inr ''after:2024-10-02 before:2024-12-31''"
proof -
  let ?end = "\<lparr>dt_year = 1000, dt_month = 1, dt_day = 1, dt_time = 0\<rparr>"
  let ?start = "\<lparr>dt_year = 999, dt_month = 12, dt_day = 31, dt_time = 0\<rparr>"
  let ?a = "window_args 1 ''1000-01-01''"
  have h: "strptime nd ''1000-01-01'' = Some ?end" for nd
    by (simp add: parse_simps)
  have o: "toordinal ?end - 1 = 364877"
    by code_simp
  have m: "minus_days ?end 1 = Inr ?start"
    by code_simp
  have s: "toordinal ?start = 364877"
    by code_simp
  have p: "strftime False ?start = ''999-12-31''" "strftime True ?start = ''0999-12-31''"
    by code_simp+
  have a: "\<not> truthy_str (arg_on ?a)" "arg_days ?a = Some 1" "(1::int) \<noteq> 0"
    "arg_before ?a = Some ''1000-01-01''"
    by (simp_all add: window_args_def truthy_str_def)
  have r: "0 < toordinal ?end - 1" "toordinal ?end - 1 \<le> MAXORDINAL"
    by (simp_all add: o MAXORDINAL_def)
  from trailing_window_anchored [OF a h r, of example_runtime "window_args 0 []"] m p
  have e: "build_date_query example_runtime ?a = Inr ''after:999-12-31 before:1000-01-01''
           \<and> build_date_query example_runtime (window_args 90 ''2024-12-31'')
               = Inr ''after:2024-10-02 before:2024-12-31''"
    by (auto simp add: example_runtime_def)
  from trailing_window_anchored [OF a h r, of padding_runtime "window_args 0 []"] m p
  have "build_date_query padding_runtime ?a = Inr ''after:0999-12-31 before:1000-01-01''"
    by (auto simp add: padding_runtime_def)
  with e a h o m s r show ?thesis by simp
qed

theorem zero_days_counterexample:
  "build_date_query example_runtime (window_args 0 ''2024-12-31'') = Inr ''before:2024-12-31''
   \<and> build_date_query example_runtime (window_args 4000000 ''2024-12-31'') = Inl OverflowError"
proof -
  have "strip ''before:2024-12-31'' = ''before:2024-12-31''"
    by code_simp
  moreover have "minus_days \<lparr>dt_year = 2024, dt_month = 12, dt_day = 31, dt_time = 0\<rparr> 4000000
                   = Inl OverflowError"
    by code_simp
  ultimately show ?thesis
    by (simp add: build_date_query_def parse_arg_def window_args_def truthy_str_def
        truthy_int_def int_arg_def fmt_str_def example_end)
qed

section \<open>Properties of the paginator\<close>

lemma calls_announce: "calls (announce p tot t w) = calls w"
  by (simp add: announce_def print_def print_end_def)

lemma search_loop_done:
  "\<not> int (length acc) < t \<Longrightarrow> search_loop c q t acc page w = (w, Inr acc)"
  by (subst search_loop.simps) simp

lemma search_loop_raise:
  assumes "int (length acc) < t"
    and "page_reply c q (min 100 (t - int (length acc)), page) = Inl e"
  shows "search_loop c q t acc page w =
           (issue (search_call q (min 100 (t - int (length acc)), page)) w, Inl e)"
  using assms
  by (subst search_loop.simps)
     (simp add: API_MAX_PER_PAGE_def page_reply_def search_call_def Let_def)

lemma search_loop_page:
  assumes "int (length acc) < t"
    and "page_reply c q (min 100 (t - int (length acc)), page) = Inr resp"
  shows "search_loop c q t acc page w =
           (let r = (min 100 (t - int (length acc)), page);
                w2 = announce page (total resp) t (issue (search_call q r) w)
            in if page_stops c q t acc r then (w2, Inr (acc @ matches resp))
               else search_loop c q t (acc @ matches resp) (page + 1) w2)"
proof -
  have pm: "page_matches c q (min 100 (t - int (length acc)), page) = matches resp"
    using assms(2) by (simp add: page_matches_def)
  show ?thesis
  proof (cases "matches resp = []")
    case True
    then show ?thesis
      using assms
      by (auto simp: search_loop.simps [where all_matches = acc and page = page and w = w]
           API_MAX_PER_PAGE_def page_reply_def search_call_def Let_def page_stops_def pm)
  next
    case False
    then show ?thesis
      using assms
      by (auto simp: search_loop.simps [where all_matches = acc and page = page and w = w]
           API_MAX_PER_PAGE_def page_reply_def search_call_def Let_def page_stops_def pm)
  qed
qed

lemma search_loop_run:
  "\<exists>rs. calls (fst (search_loop c q t acc page w)) = calls w @ map (search_call q) rs
        \<and> run_from c q t acc page rs (snd (search_loop c q t acc page w))"
proof (induction c q t acc page w rule: search_loop.induct)
  case (1 c q t acc page w)
  show ?case
  proof (cases "int (length acc) < t")
    case False
    then have "calls (fst (search_loop c q t acc page w)) = calls w @ map (search_call q) []
               \<and> run_from c q t acc page [] (snd (search_loop c q t acc page w))"
      by (simp add: search_loop_done)
    then show ?thesis by blast
  next
    case True
    define r where "r = (min 100 (t - int (length acc)), page)"
    show ?thesis
    proof (cases "page_reply c q r")
      case (Inl e)
      with True have "calls (fst (search_loop c q t acc page w)) = calls w @ map (search_call q) [r]
               \<and> run_from c q t acc page [r] (snd (search_loop c q t acc page w))"
        using search_loop_raise [of acc t c q page e w]
        by (simp add: r_def issue_def)
      then show ?thesis by blast
    next
      case (Inr resp)
      define w2 where "w2 = announce page (total resp) t (issue (search_call q r) w)"
      have c2: "calls w2 = calls w @ [search_call q r]"
        by (simp add: w2_def calls_announce issue_def)
      have pm: "page_matches c q r = matches resp"
        using Inr by (simp add: page_matches_def)
      have step: "search_loop c q t acc page w =
                   (if page_stops c q t acc r then (w2, Inr (acc @ matches resp))
                    else search_loop c q t (acc @ matches resp) (page + 1) w2)"
        using search_loop_page [of acc t c q page resp w] True Inr
        by (simp add: r_def Let_def w2_def)
      show ?thesis
      proof (cases "page_stops c q t acc r")
        case stop: True
        with True Inr c2 step
        have "calls (fst (search_loop c q t acc page w)) = calls w @ map (search_call q) [r]
               \<and> run_from c q t acc page [r] (snd (search_loop c q t acc page w))"
          by (simp add: r_def)
        then show ?thesis by blast
      next
        case go: False
        have fr: "fst r = min 100 (t - int (length acc))" by (simp add: r_def)
        have ne: "matches resp \<noteq> []"
          using go True by (auto simp: page_stops_def pm fr)
        have reply: "search_messages c q ''timestamp'' ''desc''
                       (min API_MAX_PER_PAGE (t - int (length acc))) page = Inr resp"
          using Inr by (simp add: page_reply_def r_def API_MAX_PER_PAGE_def)
        have cont: "\<not> (int (length (matches resp)) < min API_MAX_PER_PAGE (t - int (length acc))
                        \<or> t \<le> int (length (acc @ matches resp)))"
          using go by (auto simp: page_stops_def pm fr API_MAX_PER_PAGE_def)
        have w2: "announce page (total resp) t
                    (issue (SearchMessages q ''timestamp'' ''desc''
                       (min API_MAX_PER_PAGE (t - int (length acc))) page) w) = w2"
          by (simp add: w2_def search_call_def r_def API_MAX_PER_PAGE_def)
        have "\<exists>rs. calls (fst (search_loop c q t (acc @ matches resp) (page + 1) w2))
                     = calls w2 @ map (search_call q) rs
                \<and> run_from c q t (acc @ matches resp) (page + 1) rs
                     (snd (search_loop c q t (acc @ matches resp) (page + 1) w2))"
          using "1.IH" [OF True refl refl reply refl ne refl cont] by (simp only: w2)
        then obtain rs where rs: "calls (fst (search_loop c q t (acc @ matches resp) (page + 1) w2))
                     = calls w2 @ map (search_call q) rs"
          "run_from c q t (acc @ matches resp) (page + 1) rs
                     (snd (search_loop c q t (acc @ matches resp) (page + 1) w2))"
          by blast
        from rs(2) go have "rs \<noteq> []"
          by (cases rs) (auto simp: page_stops_def pm)
        with True Inr go rs c2 step
        have "calls (fst (search_loop c q t acc page w)) = calls w @ map (search_call q) (r # rs)
               \<and> run_from c q t acc page (r # rs) (snd (search_loop c q t acc page w))"
          by (simp add: r_def)
        then show ?thesis by blast
      qed
    qed
  qed
qed


lemma gathered_Nil [simp]: "gathered c q [] = []"
  by (simp add: gathered_def)

lemma gathered_Cons [simp]: "gathered c q (r # rs) = page_matches c q r @ gathered c q rs"
  by (simp add: gathered_def)

lemma run_from_Cons:
  assumes "run_from c q t acc page (r # rs) out"
  obtains (raised) e where "page_reply c q r = Inl e" "rs = []" "out = Inl e"
    | (stopped) resp where "page_reply c q r = Inr resp" "page_stops c q t acc r" "rs = []"
        "out = Inr (acc @ matches resp)"
    | (continued) resp where "page_reply c q r = Inr resp" "\<not> page_stops c q t acc r" "rs \<noteq> []"
        "run_from c q t (acc @ matches resp) (page + 1) rs out"
  using assms by (cases "page_reply c q r") (auto split: if_splits)

lemma run_from_head:
  "run_from c q t acc page (r # rs) out \<Longrightarrow>
     int (length acc) < t \<and> r = (min 100 (t - int (length acc)), page)"
  by simp

lemma run_from_requests:
  "run_from c q t acc page rs out \<Longrightarrow> i < length rs \<Longrightarrow>
     rs ! i = (min 100 (t - int (length (acc @ gathered c q (take i rs)))), page + int i)"
proof (induction rs arbitrary: acc page i)
  case Nil
  then show ?case by simp
next
  case (Cons r rs)
  show ?case
  proof (cases i)
    case 0
    with run_from_head [OF Cons.prems(1)] show ?thesis by simp
  next
    case (Suc j)
    with Cons.prems(2) have j: "j < length rs" by simp
    from Cons.prems(1) show ?thesis
    proof (cases rule: run_from_Cons)
      case (continued resp)
      have "page_matches c q r = matches resp"
        using continued(1) by (simp add: page_matches_def)
      with Cons.IH [OF continued(4) j] Suc show ?thesis by simp
    qed (use j in simp_all)
  qed
qed

lemma run_from_continues:
  "run_from c q t acc page rs out \<Longrightarrow> Suc i < length rs \<Longrightarrow>
     (\<exists>resp. page_reply c q (rs ! i) = Inr resp)
     \<and> \<not> page_stops c q t (acc @ gathered c q (take i rs)) (rs ! i)"
proof (induction rs arbitrary: acc page i)
  case Nil
  then show ?case by simp
next
  case (Cons r rs)
  from Cons.prems(2) have ne: "rs \<noteq> []" by auto
  from Cons.prems(1) show ?case
  proof (cases rule: run_from_Cons)
    case (continued resp)
    have pm: "page_matches c q r = matches resp"
      using continued(1) by (simp add: page_matches_def)
    show ?thesis
    proof (cases i)
      case 0
      with continued show ?thesis by simp
    next
      case (Suc j)
      with Cons.prems(2) have "Suc j < length rs" by simp
      from Cons.IH [OF continued(4) this] Suc pm show ?thesis by simp
    qed
  qed (use ne in simp_all)
qed

lemma run_from_returns:
  "run_from c q t acc page rs (Inr result) \<Longrightarrow>
     result = acc @ gathered c q rs
     \<and> (rs = [] \<longleftrightarrow> \<not> int (length acc) < t)
     \<and> (rs \<noteq> [] \<longrightarrow> (\<exists>resp. page_reply c q (last rs) = Inr resp)
           \<and> page_stops c q t (acc @ gathered c q (butlast rs)) (last rs))"
proof (induction rs arbitrary: acc page)
  case Nil
  then show ?case by simp
next
  case (Cons r rs)
  from Cons.prems show ?case
  proof (cases rule: run_from_Cons)
    case (stopped resp)
    have pm: "page_matches c q r = matches resp"
      using stopped(1) by (simp add: page_matches_def)
    from stopped pm run_from_head [OF Cons.prems] show ?thesis by simp
  next
    case (continued resp)
    have pm: "page_matches c q r = matches resp"
      using continued(1) by (simp add: page_matches_def)
    from Cons.IH [OF continued(4)] continued(3) pm run_from_head [OF Cons.prems]
    show ?thesis by simp
  qed simp
qed

lemma run_from_raises:
  "run_from c q t acc page rs (Inl e) \<Longrightarrow> rs \<noteq> [] \<and> page_reply c q (last rs) = Inl e"
proof (induction rs arbitrary: acc page)
  case Nil
  then show ?case by simp
next
  case (Cons r rs)
  from Cons.prems show ?case
  proof (cases rule: run_from_Cons)
    case (continued resp)
    from Cons.IH [OF continued(4)] show ?thesis by simp
  qed simp_all
qed


text \<open>
  C1. The calls of the pagination loop, started with the empty accumulator on page 1,
  are search calls for the query, sorted by timestamp, descending. The call number
  \<open>i\<close> (from 0) asks for page \<open>i + 1\<close> and for \<open>min 100 (t - gathered so far)\<close> items. The
  loop goes on after a call only if the call returned a page that does not stop it,
  and a run that returns has gathered the pages in order and has stopped at its last
  page (or made no call, exactly when the target is not positive); a run that raises
  raises what its last call raised. For a target of 150 and an endpoint with 100
  matches on page 1 and 50 on page 2 there are exactly two calls, the second for 50
  items, and the 150 matches are returned.
\<close>

theorem paginator_trace:
  "(\<exists>rs. calls (fst (search_loop c q t [] 1 w)) = calls w @ map (search_call q) rs
      \<and> (\<forall>i<length rs.
            rs ! i = (min 100 (t - int (length (gathered c q (take i rs)))), int i + 1))
      \<and> (\<forall>i. Suc i < length rs \<longrightarrow>
            (\<exists>resp. page_reply c q (rs ! i) = Inr resp)
            \<and> \<not> page_stops c q t (gathered c q (take i rs)) (rs ! i))
      \<and> (\<forall>result. snd (search_loop c q t [] 1 w) = Inr result \<longrightarrow>
            result = gathered c q rs
            \<and> (rs = [] \<longleftrightarrow> t \<le> 0)
            \<and> (rs \<noteq> [] \<longrightarrow>
                 (\<exists>resp. page_reply c q (last rs) = Inr resp)
                 \<and> page_stops c q t (gathered c q (butlast rs)) (last rs)))
      \<and> (\<forall>e. snd (search_loop c q t [] 1 w) = Inl e \<longrightarrow>
            rs \<noteq> [] \<and> page_reply c q (last rs) = Inl e))
   \<and> (\<forall>r1 r2.
         search_messages c q ''timestamp'' ''desc'' 100 1 = Inr r1 \<and> length (matches r1) = 100
         \<and> search_messages c q ''timestamp'' ''desc'' 50 2 = Inr r2 \<and> length (matches r2) = 50
         \<longrightarrow> calls (fst (collect_matches c q 150 w))
               = calls w @ [SearchMessages q ''timestamp'' ''desc'' 100 1,
                            SearchMessages q ''timestamp'' ''desc'' 50 2]
             \<and> snd (collect_matches c q 150 w) = Inr (matches r1 @ matches r2)
             \<and> length (matches r1 @ matches r2) = 150)"
proof (intro conjI allI impI)
  obtain rs where log: "calls (fst (search_loop c q t [] 1 w)) = calls w @ map (search_call q) rs"
    and run: "run_from c q t [] 1 rs (snd (search_loop c q t [] 1 w))"
    using search_loop_run [of c q t "[]" 1 w] by blast
  have req: "\<forall>i<length rs.
      rs ! i = (min 100 (t - int (length (gathered c q (take i rs)))), int i + 1)"
    using run_from_requests [OF run] by (simp add: add.commute)
  have cont: "\<forall>i. Suc i < length rs \<longrightarrow>
      (\<exists>resp. page_reply c q (rs ! i) = Inr resp)
      \<and> \<not> page_stops c q t (gathered c q (take i rs)) (rs ! i)"
    using run_from_continues [OF run] by simp
  have ret: "\<forall>result. snd (search_loop c q t [] 1 w) = Inr result \<longrightarrow>
      result = gathered c q rs \<and> (rs = [] \<longleftrightarrow> t \<le> 0)
      \<and> (rs \<noteq> [] \<longrightarrow> (\<exists>resp. page_reply c q (last rs) = Inr resp)
            \<and> page_stops c q t (gathered c q (butlast rs)) (last rs))"
  proof (intro allI impI)
    fix result assume "snd (search_loop c q t [] 1 w) = Inr result"
    with run have "run_from c q t [] 1 rs (Inr result)" by simp
    from run_from_returns [OF this]
    show "result = gathered c q rs \<and> (rs = [] \<longleftrightarrow> t \<le> 0)
      \<and> (rs \<noteq> [] \<longrightarrow> (\<exists>resp. page_reply c q (last rs) = Inr resp)
            \<and> page_stops c q t (gathered c q (butlast rs)) (last rs))"
      by (simp add: not_less)
  qed
  have rai: "\<forall>e. snd (search_loop c q t [] 1 w) = Inl e \<longrightarrow>
      rs \<noteq> [] \<and> page_reply c q (last rs) = Inl e"
  proof (intro allI impI)
    fix e assume "snd (search_loop c q t [] 1 w) = Inl e"
    with run have "run_from c q t [] 1 rs (Inl e)" by simp
    from run_from_raises [OF this]
    show "rs \<noteq> [] \<and> page_reply c q (last rs) = Inl e" .
  qed
  from log req cont ret rai
  show "\<exists>rs. calls (fst (search_loop c q t [] 1 w)) = calls w @ map (search_call q) rs
      \<and> (\<forall>i<length rs.
            rs ! i = (min 100 (t - int (length (gathered c q (take i rs)))), int i + 1))
      \<and> (\<forall>i. Suc i < length rs \<longrightarrow>
            (\<exists>resp. page_reply c q (rs ! i) = Inr resp)
            \<and> \<not> page_stops c q t (gathered c q (take i rs)) (rs ! i))
      \<and> (\<forall>result. snd (search_loop c q t [] 1 w) = Inr result \<longrightarrow>
            result = gathered c q rs
            \<and> (rs = [] \<longleftrightarrow> t \<le> 0)
            \<and> (rs \<noteq> [] \<longrightarrow>
                 (\<exists>resp. page_reply c q (last rs) = Inr resp)
                 \<and> page_stops c q t (gathered c q (butlast rs)) (last rs)))
      \<and> (\<forall>e. snd (search_loop c q t [] 1 w) = Inl e \<longrightarrow>
            rs \<noteq> [] \<and> page_reply c q (last rs) = Inl e)"
    by blast
next
  fix r1 r2
  assume a: "search_messages c q ''timestamp'' ''desc'' 100 1 = Inr r1 \<and> length (matches r1) = 100
         \<and> search_messages c q ''timestamp'' ''desc'' 50 2 = Inr r2 \<and> length (matches r2) = 50"
  then have ne: "matches r1 \<noteq> []" "matches r2 \<noteq> []" by auto
  have run: "collect_matches c q 150 w =
      (announce 2 (total r2) 150
         (issue (SearchMessages q ''timestamp'' ''desc'' 50 2)
            (announce 1 (total r1) 150 (issue (SearchMessages q ''timestamp'' ''desc'' 100 1) w))),
       Inr (matches r1 @ matches r2))"
    using a ne
    by (simp add: collect_matches_def search_loop.simps [of c q 150] API_MAX_PER_PAGE_def
        Let_def slice_upto_def)
  show "calls (fst (collect_matches c q 150 w))
               = calls w @ [SearchMessages q ''timestamp'' ''desc'' 100 1,
                            SearchMessages q ''timestamp'' ''desc'' 50 2]"
    by (simp add: run calls_announce issue_def)
  show "snd (collect_matches c q 150 w) = Inr (matches r1 @ matches r2)"
    by (simp add: run)
  show "length (matches r1 @ matches r2) = 150"
    using a by simp
qed

theorem paginator_trace_witness:
  "calls (fst (collect_matches (paged_client 100 50) ''has::pray:'' 150 empty_world))
     = [SearchMessages ''has::pray:'' ''timestamp'' ''desc'' 100 1,
        SearchMessages ''has::pray:'' ''timestamp'' ''desc'' 50 2]
   \<and> snd (collect_matches (paged_client 100 50) ''has::pray:'' 150 empty_world)
       = Inr (replicate 100 example_match @ replicate 50 example_match)
   \<and> (\<exists>rs. calls (fst (search_loop (paged_client 100 50) ''has::pray:'' 150 [] 1 empty_world))
              = map (search_call ''has::pray:'') rs
            \<and> rs ! 0 = (100, 1))"
proof -
  let ?c = "paged_client 100 50"
  let ?q = "''has::pray:''"
  note T = paginator_trace [of ?c ?q 150 empty_world]
  have p1: "search_messages ?c ?q ''timestamp'' ''desc'' 100 1
              = Inr \<lparr>total = 150, matches = replicate 100 example_match\<rparr>"
    by (simp add: paged_client_def)
  have p2: "search_messages ?c ?q ''timestamp'' ''desc'' 50 2
              = Inr \<lparr>total = 150, matches = replicate 50 example_match\<rparr>"
    by (simp add: paged_client_def)
  from T p1 p2
  have ex: "calls (fst (collect_matches ?c ?q 150 empty_world))
               = calls empty_world @ [SearchMessages ?q ''timestamp'' ''desc'' 100 1,
                            SearchMessages ?q ''timestamp'' ''desc'' 50 2]
            \<and> snd (collect_matches ?c ?q 150 empty_world)
               = Inr (replicate 100 example_match @ replicate 50 example_match)"
    by force
  from T obtain rs where
    log: "calls (fst (search_loop ?c ?q 150 [] 1 empty_world))
            = calls empty_world @ map (search_call ?q) rs"
    and req: "\<forall>i<length rs.
            rs ! i = (min 100 (150 - int (length (gathered ?c ?q (take i rs)))), int i + 1)"
    and ret: "\<forall>result. snd (search_loop ?c ?q 150 [] 1 empty_world) = Inr result \<longrightarrow>
            result = gathered ?c ?q rs \<and> (rs = [] \<longleftrightarrow> (150::int) \<le> 0)"
    by blast
  have "snd (search_loop ?c ?q 150 [] 1 empty_world) \<noteq> Inl e" for e
    using T p1 by (auto simp: page_reply_def paged_client_def)
  then obtain result where "snd (search_loop ?c ?q 150 [] 1 empty_world) = Inr result"
    by (cases "snd (search_loop ?c ?q 150 [] 1 empty_world)") auto
  with ret have "rs \<noteq> []" by simp
  then have "0 < length rs" by simp
  with req have "rs ! 0 = (100, 1)" by force
  with log ex show ?thesis by (auto simp: empty_world_def)
qed

text \<open>
  C2. For a positive target the matches handed on to the resolver are the first
  \<open>t\<close> entries of the accumulator the loop has built, so there are at most \<open>t\<close> of
  them, whatever the pages held. For a target of 50 and an endpoint that answers the
  request for 50 items with 100 matches, there is exactly one call, for 50 items, and
  exactly the first 50 matches are kept.
\<close>

theorem handed_on_at_most_target:
  assumes "0 < t" and "collect_matches c q t w = (w', Inr ms)"
  shows "int (length ms) \<le> t
         \<and> (\<exists>acc. search_loop c q t [] 1 w = (w', Inr acc) \<and> ms = take (nat t) acc)
         \<and> (\<forall>r1. search_messages c q ''timestamp'' ''desc'' 50 1 = Inr r1
                    \<and> length (matches r1) = 100
               \<longrightarrow> calls (fst (collect_matches c q 50 w))
                     = calls w @ [SearchMessages q ''timestamp'' ''desc'' 50 1]
                   \<and> snd (collect_matches c q 50 w) = Inr (take 50 (matches r1))
                   \<and> length (take 50 (matches r1)) = 50)"
proof (intro conjI allI impI)
  from assms(2) obtain acc where loop: "search_loop c q t [] 1 w = (w', Inr acc)"
    and ms: "ms = slice_upto acc t"
    by (auto simp: collect_matches_def split: prod.splits sum.splits)
  from assms(1) ms have take: "ms = take (nat t) acc"
    by (simp add: slice_upto_def)
  then show "int (length ms) \<le> t" using assms(1) by simp
  from loop take show "\<exists>acc. search_loop c q t [] 1 w = (w', Inr acc) \<and> ms = take (nat t) acc"
    by blast
next
  fix r1
  assume a: "search_messages c q ''timestamp'' ''desc'' 50 1 = Inr r1 \<and> length (matches r1) = 100"
  then have ne: "matches r1 \<noteq> []" by auto
  have run: "collect_matches c q 50 w =
      (announce 1 (total r1) 50 (issue (SearchMessages q ''timestamp'' ''desc'' 50 1) w),
       Inr (take 50 (matches r1)))"
    using a ne
    by (simp add: collect_matches_def search_loop.simps [of c q 50] API_MAX_PER_PAGE_def
        Let_def slice_upto_def)
  show "calls (fst (collect_matches c q 50 w))
          = calls w @ [SearchMessages q ''timestamp'' ''desc'' 50 1]"
    by (simp add: run calls_announce issue_def)
  show "snd (collect_matches c q 50 w) = Inr (take 50 (matches r1))"
    by (simp add: run)
  show "length (take 50 (matches r1)) = 50"
    using a by simp
qed

theorem handed_on_at_most_target_witness:
  "(0::int) < 50
   \<and> (\<exists>w'. collect_matches (paged_client 100 0) ''has::pray:'' 50 empty_world
             = (w', Inr (replicate 50 example_match))
           \<and> calls w' = [SearchMessages ''has::pray:'' ''timestamp'' ''desc'' 50 1])
   \<and> int (length (replicate 50 example_match)) \<le> 50"
proof -
  let ?c = "paged_client 100 0"
  let ?q = "''has::pray:''"
  obtain w' out where run: "collect_matches ?c ?q 50 empty_world = (w', out)"
    by (cases "collect_matches ?c ?q 50 empty_world")
  have p1: "search_messages ?c ?q ''timestamp'' ''desc'' 50 1
              = Inr \<lparr>total = 100, matches = replicate 100 example_match\<rparr>"
    by (simp add: paged_client_def)
  have ne: "replicate 100 example_match \<noteq> []" by simp
  have out: "out = Inr (replicate 50 example_match)"
    using run p1 ne
    by (simp add: collect_matches_def search_loop.simps [of ?c ?q 50] API_MAX_PER_PAGE_def
        Let_def slice_upto_def)
  have pos: "(0::int) < 50" by simp
  from handed_on_at_most_target [OF pos run [unfolded out]] p1 run
  have "int (length (replicate 50 example_match)) \<le> 50
        \<and> calls w' = calls empty_world @ [SearchMessages ?q ''timestamp'' ''desc'' 50 1]"
    by force
  with run out show ?thesis by (simp add: empty_world_def)
qed

section \<open>Properties of the resolver\<close>

lemma get_user_name_fails:
  "lookup_fails c u \<Longrightarrow> get_user_name c u w = (issue (UsersInfo u) w, u)"
  by (auto simp: get_user_name_def lookup_fails_def Let_def split: sum.splits option.splits)

lemma calls_get_user_name: "calls (fst (get_user_name c u w)) = calls w @ [UsersInfo u]"
  by (simp add: get_user_name_def issue_def Let_def split: sum.splits option.splits)

lemma fetch_remote_error:
  assumes "history_reply c m = Inl (SlackApiError e)"
  shows "fetch_message_details ft c m emoji w =
           (if err_code e = ''channel_not_found'' then issue (history_call m) w
            else print (txt_error_notice @ err_text e) (issue (history_call m) w), Inr None)"
  using assms
  by (simp add: fetch_message_details_def history_reply_def history_call_def
      handle_fetch_error_def Let_def)

lemma resolve_skip:
  assumes "fetch_message_details ft c m emoji (progress i n w) = (w', Inr None)"
  shows "resolve_loop ft c emoji n i (m # rest) acc w
           = resolve_loop ft c emoji n (Suc i) rest acc w'"
  using assms by (simp add: Let_def)

lemma resolve_keep:
  assumes "fetch_message_details ft c m emoji (progress i n w) = (w', Inr (Some d))"
  shows "resolve_loop ft c emoji n i (m # rest) acc w
           = resolve_loop ft c emoji n (Suc i) rest (acc @ [d]) w'"
  using assms by (simp add: Let_def)

lemma fetch_qualifying:
  assumes "history_reply c m = Inr (msg # others)"
    and "carries msg emoji r"
    and "ft (match_ts m) = Inr t"
  shows "fetch_message_details ft c m emoji w =
           (fst (get_user_name c (author_id msg) (issue (history_call m) w)),
            Inr (Some \<lparr>rec_text = (case msg_text msg of None \<Rightarrow> txt_no_text | Some x \<Rightarrow> x),
                       rec_user = snd (get_user_name c (author_id msg) (issue (history_call m) w)),
                       rec_count = reaction_count r,
                       rec_channel_name = chan_name (match_channel m),
                       rec_timestamp = match_ts m,
                       rec_datetime = t,
                       rec_permalink = match_permalink m\<rparr>))"
proof -
  from assms(2) obtain rs where rs: "msg_reactions msg = Some rs"
    "find (\<lambda>x. reaction_name x = emoji) rs = Some r"
    by (auto simp: carries_def split: option.splits)
  show ?thesis
    using assms(1,3) rs
    by (simp add: fetch_message_details_def history_reply_def history_call_def author_id_def
        Let_def split: prod.splits)
qed

lemma fetch_Some_text:
  assumes "fetch_message_details ft c m emoji w = (w', Inr (Some d))"
  shows "\<exists>msg others r. history_reply c m = Inr (msg # others) \<and> carries msg emoji r
           \<and> rec_text d = (case msg_text msg of None \<Rightarrow> txt_no_text | Some x \<Rightarrow> x)"
  using assms
  by (auto simp: fetch_message_details_def history_reply_def handle_fetch_error_def carries_def
      Let_def
      split: sum.splits list.splits option.splits prod.splits exn.splits if_splits)

text \<open>
  C6, as amended. Whenever the resolver returns a record, the message fetch has
  returned a message that carries the target reaction, and the record's text is the
  message text when the text field is present, the empty string included, and the
  placeholder when the field is absent. A message that carries the target reaction,
  with a timestamp that converts, does get a record.
\<close>

theorem record_text:
  "(\<forall>w' d. fetch_message_details ft c m emoji w = (w', Inr (Some d)) \<longrightarrow>
      (\<exists>msg others r. history_reply c m = Inr (msg # others) \<and> carries msg emoji r
         \<and> rec_text d = (case msg_text msg of None \<Rightarrow> txt_no_text | Some x \<Rightarrow> x)))
   \<and> (\<forall>msg others r t. history_reply c m = Inr (msg # others) \<and> carries msg emoji r
          \<and> ft (match_ts m) = Inr t \<longrightarrow>
        (\<exists>w' d. fetch_message_details ft c m emoji w = (w', Inr (Some d))))"
proof (intro conjI allI impI)
  fix w' d assume "fetch_message_details ft c m emoji w = (w', Inr (Some d))"
  then show "\<exists>msg others r. history_reply c m = Inr (msg # others) \<and> carries msg emoji r
         \<and> rec_text d = (case msg_text msg of None \<Rightarrow> txt_no_text | Some x \<Rightarrow> x)"
    by (rule fetch_Some_text)
next
  fix msg others r t
  assume "history_reply c m = Inr (msg # others) \<and> carries msg emoji r \<and> ft (match_ts m) = Inr t"
  then show "\<exists>w' d. fetch_message_details ft c m emoji w = (w', Inr (Some d))"
    using fetch_qualifying [of c m msg others emoji r ft t w] by simp
qed

theorem record_text_witness:
  "snd (fetch_message_details example_clock
          (message_client \<lparr>msg_text = None, msg_user = Some ''U12345'',
                           msg_reactions = Some [\<lparr>reaction_name = ''pray'', reaction_count = 5\<rparr>]\<rparr>
             john_doe)
          example_match ''pray'' empty_world)
     = Inr (Some \<lparr>rec_text = txt_no_text, rec_user = ''John Doe'', rec_count = 5,
                  rec_channel_name = ''general'', rec_timestamp = ''1609459200.000000'',
                  rec_datetime = \<lparr>dt_year = 2021, dt_month = 1, dt_day = 1, dt_time = 0\<rparr>,
                  rec_permalink = ''https://slack.com/link''\<rparr>)"
proof -
  let ?msg = "\<lparr>msg_text = None, msg_user = Some ''U12345'',
                msg_reactions = Some [\<lparr>reaction_name = ''pray'', reaction_count = 5\<rparr>]\<rparr>"
  let ?c = "message_client ?msg john_doe"
  let ?run = "fetch_message_details example_clock ?c example_match ''pray'' empty_world"
  have h: "history_reply ?c example_match = Inr (?msg # [])"
    by (simp add: history_reply_def message_client_def)
  have k: "carries ?msg ''pray'' \<lparr>reaction_name = ''pray'', reaction_count = 5\<rparr>"
    by (simp add: carries_def)
  have t: "example_clock (match_ts example_match)
             = Inr \<lparr>dt_year = 2021, dt_month = 1, dt_day = 1, dt_time = 0\<rparr>"
    by (simp add: example_clock_def)
  from record_text [of example_clock ?c example_match "''pray''" empty_world] h k t
  obtain w' d where run: "?run = (w', Inr (Some d))"
    by blast
  from record_text [of example_clock ?c example_match "''pray''" empty_world] run h
  have "rec_text d = txt_no_text"
    by fastforce
  then show ?thesis
    using run
    by (simp add: fetch_message_details_def message_client_def example_match_def
        get_user_name_def john_doe_def example_clock_def Let_def)
qed


theorem empty_text_counterexample:
  "snd (fetch_message_details example_clock
          (message_client \<lparr>msg_text = Some [], msg_user = Some ''U12345'',
                           msg_reactions = Some [\<lparr>reaction_name = ''pray'', reaction_count = 5\<rparr>]\<rparr>
             john_doe)
          example_match ''pray'' empty_world)
     = Inr (Some \<lparr>rec_text = [], rec_user = ''John Doe'', rec_count = 5,
                  rec_channel_name = ''general'', rec_timestamp = ''1609459200.000000'',
                  rec_datetime = \<lparr>dt_year = 2021, dt_month = 1, dt_day = 1, dt_time = 0\<rparr>,
                  rec_permalink = ''https://slack.com/link''\<rparr>)
   \<and> txt_no_text \<noteq> []"
  by (simp add: fetch_message_details_def message_client_def example_match_def
      get_user_name_def john_doe_def example_clock_def Let_def txt_no_text_def)

text \<open>
  The resolver's result, and the calls it adds, do not depend on the calls and the
  output so far; the first call is the message fetch.
\<close>

lemma fetch_result:
  "snd (fetch_message_details ft c m emoji w) = resolution ft c emoji m"
  by (simp add: fetch_message_details_def resolution_def handle_fetch_error_def
      get_user_name_def Let_def
      split: sum.splits list.splits option.splits exn.splits prod.splits)

lemma fetch_calls:
  "calls (fst (fetch_message_details ft c m emoji w)) = calls w @ requests ft c emoji [m]"
  by (simp add: fetch_message_details_def requests_def handle_fetch_error_def
      get_user_name_def issue_def print_def print_end_def Let_def
      split: sum.splits list.splits option.splits exn.splits prod.splits)

lemma requests_head:
  "\<exists>cs. requests ft c emoji [m] = history_call m # cs"
  by (simp add: fetch_message_details_def requests_def handle_fetch_error_def history_call_def
      get_user_name_def issue_def print_def print_end_def Let_def
      split: sum.splits list.splits option.splits exn.splits prod.splits)

lemma requests_Nil [simp]: "requests ft c emoji [] = []"
  by (simp add: requests_def)

lemma requests_append [simp]:
  "requests ft c emoji (xs @ ys) = requests ft c emoji xs @ requests ft c emoji ys"
  by (simp add: requests_def)

lemma requests_Cons:
  "requests ft c emoji (x # xs) = requests ft c emoji [x] @ requests ft c emoji xs"
  by (simp add: requests_def)

lemma requests_member:
  "x \<in> set ms \<Longrightarrow> history_call x \<in> set (requests ft c emoji ms)"
proof (induction ms)
  case Nil
  then show ?case by simp
next
  case (Cons m ms)
  obtain cs where "requests ft c emoji [m] = history_call m # cs"
    using requests_head by blast
  with Cons show ?case
    by (auto simp: requests_Cons [of ft c emoji m ms])
qed

lemma resolved_Nil [simp]: "resolved ft c emoji [] = []"
  by (simp add: resolved_def)

lemma resolved_append [simp]:
  "resolved ft c emoji (xs @ ys) = resolved ft c emoji xs @ resolved ft c emoji ys"
  by (simp add: resolved_def)

lemma resolved_Cons:
  "resolved ft c emoji (x # xs) = resolved ft c emoji [x] @ resolved ft c emoji xs"
  by (simp add: resolved_def)

lemma calls_progress [simp]: "calls (progress i n w) = calls w"
  by (simp add: progress_def print_end_def)

text \<open>
  A batch in which no resolution raises: every match is resolved, in order, and the
  records are those of the matches. A batch in which a resolution raises: it ends
  there, with that exception.
\<close>

lemma resolve_loop_all:
  assumes "\<forall>x\<in>set ms. \<exists>r. resolution ft c emoji x = Inr r"
  shows "snd (resolve_loop ft c emoji n i ms acc w) = Inr (acc @ resolved ft c emoji ms)
         \<and> calls (fst (resolve_loop ft c emoji n i ms acc w)) = calls w @ requests ft c emoji ms"
  using assms
proof (induction ms arbitrary: i acc w)
  case Nil
  then show ?case by simp
next
  case (Cons m rest)
  obtain w2 r where f: "fetch_message_details ft c m emoji (progress i n w) = (w2, r)"
    by (cases "fetch_message_details ft c m emoji (progress i n w)")
  from f fetch_result [of ft c m emoji "progress i n w"]
  have r: "r = resolution ft c emoji m" by simp
  from f fetch_calls [of ft c m emoji "progress i n w"]
  have c2: "calls w2 = calls w @ requests ft c emoji [m]" by simp
  from Cons.prems obtain v where v: "resolution ft c emoji m = Inr v" by auto
  from Cons.prems have rest: "\<forall>x\<in>set rest. \<exists>r. resolution ft c emoji x = Inr r" by simp
  show ?case
  proof (cases v)
    case None
    with f r v have "resolve_loop ft c emoji n i (m # rest) acc w
                       = resolve_loop ft c emoji n (Suc i) rest acc w2"
      by (simp add: Let_def)
    moreover from None v have "resolved ft c emoji [m] = []"
      by (simp add: resolved_def)
    ultimately show ?thesis
      using Cons.IH [OF rest, of "Suc i" acc w2] c2
      by (simp add: resolved_Cons [of ft c emoji m rest] requests_Cons [of ft c emoji m rest])
  next
    case (Some d)
    with f r v have "resolve_loop ft c emoji n i (m # rest) acc w
                       = resolve_loop ft c emoji n (Suc i) rest (acc @ [d]) w2"
      by (simp add: Let_def)
    moreover from Some v have "resolved ft c emoji [m] = [d]"
      by (simp add: resolved_def)
    ultimately show ?thesis
      using Cons.IH [OF rest, of "Suc i" "acc @ [d]" w2] c2
      by (simp add: resolved_Cons [of ft c emoji m rest] requests_Cons [of ft c emoji m rest])
  qed
qed

lemma resolve_loop_raises:
  assumes "resolution ft c emoji m = Inl e"
  shows "snd (resolve_loop ft c emoji n i (m # post) acc w) = Inl e
         \<and> calls (fst (resolve_loop ft c emoji n i (m # post) acc w))
             = calls w @ requests ft c emoji [m]"
proof -
  obtain w2 r where f: "fetch_message_details ft c m emoji (progress i n w) = (w2, r)"
    by (cases "fetch_message_details ft c m emoji (progress i n w)")
  from f fetch_result [of ft c m emoji "progress i n w"] assms
  have r: "r = Inl e" by simp
  from f fetch_calls [of ft c m emoji "progress i n w"]
  have c2: "calls w2 = calls w @ requests ft c emoji [m]" by simp
  from f r c2 show ?thesis by (simp add: Let_def)
qed

lemma resolve_loop_stops:
  assumes "\<forall>x\<in>set pre. \<exists>r. resolution ft c emoji x = Inr r"
    and "resolution ft c emoji m = Inl e"
  shows "snd (resolve_loop ft c emoji n i (pre @ m # post) acc w) = Inl e
         \<and> calls (fst (resolve_loop ft c emoji n i (pre @ m # post) acc w))
             = calls w @ requests ft c emoji pre @ requests ft c emoji [m]"
  using assms(1)
proof (induction pre arbitrary: i acc w)
  case Nil
  then show ?case using resolve_loop_raises [OF assms(2)] by simp
next
  case (Cons p pre)
  obtain w2 r where f: "fetch_message_details ft c p emoji (progress i n w) = (w2, r)"
    by (cases "fetch_message_details ft c p emoji (progress i n w)")
  from f fetch_result [of ft c p emoji "progress i n w"]
  have r: "r = resolution ft c emoji p" by simp
  from f fetch_calls [of ft c p emoji "progress i n w"]
  have c2: "calls w2 = calls w @ requests ft c emoji [p]" by simp
  from Cons.prems obtain v where v: "resolution ft c emoji p = Inr v" by auto
  from Cons.prems have pre: "\<forall>x\<in>set pre. \<exists>r. resolution ft c emoji x = Inr r" by simp
  have "\<exists>acc'. resolve_loop ft c emoji n i ((p # pre) @ m # post) acc w
                  = resolve_loop ft c emoji n (Suc i) (pre @ m # post) acc' w2"
    using f r v by (cases v) (auto simp add: Let_def)
  then obtain acc' where "resolve_loop ft c emoji n i ((p # pre) @ m # post) acc w
                  = resolve_loop ft c emoji n (Suc i) (pre @ m # post) acc' w2"
    by blast
  then show ?case
    using Cons.IH [OF pre, of "Suc i" acc' w2] c2
    by (simp add: requests_Cons [of ft c emoji p pre])
qed

lemma fetch_raises:
  assumes "history_reply c m = Inl e" and "\<forall>se. e \<noteq> SlackApiError se"
  shows "fetch_message_details ft c m emoji w = (issue (history_call m) w, Inl e)"
  using assms
  by (cases e)
    (simp_all add: fetch_message_details_def history_reply_def history_call_def
      handle_fetch_error_def Let_def)

text \<open>
  C7, as amended. When the message fetch for a match raises a \<^verbatim>\<open>SlackApiError\<close>: the
  resolution is absent and the only call made is the fetch; with the error code
  \<^verbatim>\<open>channel_not_found\<close> nothing is written, with any other code one notice is
  written, the error's text after the warning prefix; and the batch is not aborted:
  if no other match of the batch raises, the batch returns the records of the other
  matches, in order, after the records gathered before, and it has made the calls of
  every match, in order, so that every match, those after the failing one included,
  has been fetched. When the message fetch raises anything else, the exception leaves
  the resolver, and the batch ends with it: the fetch of that match is its last call.
\<close>

theorem fetch_failure_is_soft:
  assumes "history_reply c m = Inl e"
  shows "(\<forall>se. e = SlackApiError se \<longrightarrow>
            snd (fetch_message_details ft c m emoji w) = Inr None
            \<and> calls (fst (fetch_message_details ft c m emoji w)) = calls w @ [history_call m]
            \<and> stdout (fst (fetch_message_details ft c m emoji w))
                = (if err_code se = ''channel_not_found'' then stdout w
                   else stdout w @ [txt_error_notice @ err_text se @ [CHR 0x0A]])
            \<and> ((\<forall>x\<in>set (pre @ post). \<exists>r. resolution ft c emoji x = Inr r) \<longrightarrow>
                  snd (resolve_loop ft c emoji n i (pre @ m # post) acc w)
                    = Inr (acc @ resolved ft c emoji (pre @ post))
                  \<and> calls (fst (resolve_loop ft c emoji n i (pre @ m # post) acc w))
                      = calls w @ requests ft c emoji pre @ history_call m
                          # requests ft c emoji post
                  \<and> (\<forall>x\<in>set (pre @ m # post). history_call x
                        \<in> set (calls (fst (resolve_loop ft c emoji n i (pre @ m # post) acc w))))))
         \<and> ((\<forall>se. e \<noteq> SlackApiError se) \<longrightarrow>
              snd (fetch_message_details ft c m emoji w) = Inl e
              \<and> calls (fst (fetch_message_details ft c m emoji w)) = calls w @ [history_call m]
              \<and> ((\<forall>x\<in>set pre. \<exists>r. resolution ft c emoji x = Inr r) \<longrightarrow>
                    snd (resolve_loop ft c emoji n i (pre @ m # post) acc w) = Inl e
                    \<and> calls (fst (resolve_loop ft c emoji n i (pre @ m # post) acc w))
                        = calls w @ requests ft c emoji pre @ [history_call m]))"
proof (intro conjI allI impI)
  fix se assume e: "e = SlackApiError se"
  note f = fetch_remote_error [OF assms [unfolded e]]
  show "snd (fetch_message_details ft c m emoji w) = Inr None"
    by (simp add: f)
  show "calls (fst (fetch_message_details ft c m emoji w)) = calls w @ [history_call m]"
    by (simp add: f issue_def print_def print_end_def)
  show "stdout (fst (fetch_message_details ft c m emoji w))
          = (if err_code se = ''channel_not_found'' then stdout w
             else stdout w @ [txt_error_notice @ err_text se @ [CHR 0x0A]])"
    by (simp add: f issue_def print_def print_end_def)
  have none: "resolution ft c emoji m = Inr None"
    by (simp add: resolution_def f)
  have one: "requests ft c emoji [m] = [history_call m]"
    by (simp add: requests_def f issue_def print_def print_end_def)
  assume others: "\<forall>x\<in>set (pre @ post). \<exists>r. resolution ft c emoji x = Inr r"
  with none have "\<forall>x\<in>set (pre @ m # post). \<exists>r. resolution ft c emoji x = Inr r"
    by auto
  note run = resolve_loop_all [OF this, of n i acc w]
  from run none one
  show "snd (resolve_loop ft c emoji n i (pre @ m # post) acc w)
          = Inr (acc @ resolved ft c emoji (pre @ post))"
    and "calls (fst (resolve_loop ft c emoji n i (pre @ m # post) acc w))
          = calls w @ requests ft c emoji pre @ history_call m # requests ft c emoji post"
    by (simp_all add: resolved_Cons [of ft c emoji m post] requests_Cons [of ft c emoji m post]
        resolved_def [of ft c emoji "[m]"])
  from run
  show "\<forall>x\<in>set (pre @ m # post). history_call x
          \<in> set (calls (fst (resolve_loop ft c emoji n i (pre @ m # post) acc w)))"
    using requests_member [of _ "pre @ m # post" ft c emoji] by simp
next
  assume e: "\<forall>se. e \<noteq> SlackApiError se"
  note f = fetch_raises [OF assms e]
  show "snd (fetch_message_details ft c m emoji w) = Inl e"
    by (simp add: f)
  show "calls (fst (fetch_message_details ft c m emoji w)) = calls w @ [history_call m]"
    by (simp add: f issue_def)
  have raises: "resolution ft c emoji m = Inl e"
    by (simp add: resolution_def f)
  have one: "requests ft c emoji [m] = [history_call m]"
    by (simp add: requests_def f issue_def)
  assume "\<forall>x\<in>set pre. \<exists>r. resolution ft c emoji x = Inr r"
  from resolve_loop_stops [OF this raises, of n i post acc w] one
  show "snd (resolve_loop ft c emoji n i (pre @ m # post) acc w) = Inl e"
    and "calls (fst (resolve_loop ft c emoji n i (pre @ m # post) acc w))
          = calls w @ requests ft c emoji pre @ [history_call m]"
    by simp_all
qed

theorem fetch_failure_is_soft_witness:
  "history_reply (patchy_client (SlackApiError \<lparr>err_code = ''channel_not_found'',
                                                err_text = ''channel_not_found''\<rparr>)
                    example_message) gone_match
     = Inl (SlackApiError \<lparr>err_code = ''channel_not_found'', err_text = ''channel_not_found''\<rparr>)
   \<and> stdout (fst (fetch_message_details example_clock
        (patchy_client (SlackApiError \<lparr>err_code = ''channel_not_found'',
                                        err_text = ''channel_not_found''\<rparr>) example_message)
        gone_match ''pray'' empty_world)) = []
   \<and> snd (resolve_loop example_clock
        (patchy_client (SlackApiError \<lparr>err_code = ''channel_not_found'',
                                        err_text = ''channel_not_found''\<rparr>) example_message)
        ''pray'' 3 1 [example_match, gone_match, example_match] [] empty_world)
       = Inr [example_record ''Great work!'' 5, example_record ''Great work!'' 5]
   \<and> calls (fst (resolve_loop example_clock
        (patchy_client (SlackApiError \<lparr>err_code = ''channel_not_found'',
                                        err_text = ''channel_not_found''\<rparr>) example_message)
        ''pray'' 3 1 [example_match, gone_match, example_match] [] empty_world))
       = [ConversationsHistory ''C123'' ''1609459200.000000'' True 1, UsersInfo ''U12345'',
          ConversationsHistory ''C404'' ''1609459100.000000'' True 1,
          ConversationsHistory ''C123'' ''1609459200.000000'' True 1, UsersInfo ''U12345'']
   \<and> snd (fetch_message_details example_clock
        (patchy_client (SlackApiError \<lparr>err_code = ''ratelimited'', err_text = ''slow down''\<rparr>)
           example_message)
        gone_match ''pray'' empty_world) = Inr None
   \<and> stdout (fst (fetch_message_details example_clock
        (patchy_client (SlackApiError \<lparr>err_code = ''ratelimited'', err_text = ''slow down''\<rparr>)
           example_message)
        gone_match ''pray'' empty_world)) = [txt_error_notice @ ''slow down'' @ [CHR 0x0A]]
   \<and> snd (resolve_loop example_clock (patchy_client (OtherError ''timed out'') example_message)
        ''pray'' 3 1 [example_match, gone_match, example_match] [] empty_world)
       = Inl (OtherError ''timed out'')
   \<and> calls (fst (resolve_loop example_clock
        (patchy_client (OtherError ''timed out'') example_message)
        ''pray'' 3 1 [example_match, gone_match, example_match] [] empty_world))
       = [ConversationsHistory ''C123'' ''1609459200.000000'' True 1, UsersInfo ''U12345'',
          ConversationsHistory ''C404'' ''1609459100.000000'' True 1]"
proof -
  let ?gone = "\<lparr>err_code = ''channel_not_found'', err_text = ''channel_not_found''\<rparr>"
  let ?slow = "\<lparr>err_code = ''ratelimited'', err_text = ''slow down''\<rparr>"
  have h: "history_reply (patchy_client e example_message) gone_match = Inl e" for e
    by (simp add: history_reply_def patchy_client_def gone_match_def)
  have r: "resolution example_clock (patchy_client e example_message) ''pray'' example_match
             = Inr (Some (example_record ''Great work!'' 5))" for e
    by (simp add: resolution_def fetch_message_details_def patchy_client_def example_match_def
        example_message_def get_user_name_def example_clock_def example_record_def Let_def)
  have q: "requests example_clock (patchy_client e example_message) ''pray'' [example_match]
             = [ConversationsHistory ''C123'' ''1609459200.000000'' True 1, UsersInfo ''U12345'']"
    for e
    by (simp add: requests_def fetch_message_details_def patchy_client_def example_match_def
        example_message_def get_user_name_def example_clock_def issue_def Let_def)
  have k: "history_call gone_match = ConversationsHistory ''C404'' ''1609459100.000000'' True 1"
    by (simp add: history_call_def gone_match_def)
  have d: "resolved example_clock (patchy_client e example_message) ''pray''
             ([example_match] @ [example_match])
             = [example_record ''Great work!'' 5, example_record ''Great work!'' 5]" for e
    by (simp add: resolved_def r)
  have o: "\<forall>se. OtherError ''timed out'' \<noteq> SlackApiError se"
    by simp
  from fetch_failure_is_soft [OF h, of "SlackApiError ?gone" example_clock "''pray''"
      empty_world "[example_match]" "[example_match]" 3 1 "[]"] r q k d
  have a: "stdout (fst (fetch_message_details example_clock
             (patchy_client (SlackApiError ?gone) example_message)
             gone_match ''pray'' empty_world)) = []
     \<and> snd (resolve_loop example_clock (patchy_client (SlackApiError ?gone) example_message)
          ''pray'' 3 1 [example_match, gone_match, example_match] [] empty_world)
         = Inr [example_record ''Great work!'' 5, example_record ''Great work!'' 5]
     \<and> calls (fst (resolve_loop example_clock
          (patchy_client (SlackApiError ?gone) example_message)
          ''pray'' 3 1 [example_match, gone_match, example_match] [] empty_world))
         = [ConversationsHistory ''C123'' ''1609459200.000000'' True 1, UsersInfo ''U12345'',
            ConversationsHistory ''C404'' ''1609459100.000000'' True 1,
            ConversationsHistory ''C123'' ''1609459200.000000'' True 1, UsersInfo ''U12345'']"
    by (simp add: empty_world_def)
  from fetch_failure_is_soft [OF h, of "SlackApiError ?slow" example_clock "''pray''"
      empty_world "[]" "[]" 1 1 "[]"]
  have b: "snd (fetch_message_details example_clock
             (patchy_client (SlackApiError ?slow) example_message)
             gone_match ''pray'' empty_world) = Inr None
     \<and> stdout (fst (fetch_message_details example_clock
             (patchy_client (SlackApiError ?slow) example_message)
             gone_match ''pray'' empty_world)) = [txt_error_notice @ ''slow down'' @ [CHR 0x0A]]"
    by (simp add: empty_world_def)
  from fetch_failure_is_soft [OF h, of "OtherError ''timed out''" example_clock "''pray''"
      empty_world "[example_match]" "[example_match]" 3 1 "[]"] r q k o
  have c: "snd (resolve_loop example_clock (patchy_client (OtherError ''timed out'') example_message)
          ''pray'' 3 1 [example_match, gone_match, example_match] [] empty_world)
         = Inl (OtherError ''timed out'')
     \<and> calls (fst (resolve_loop example_clock
          (patchy_client (OtherError ''timed out'') example_message)
          ''pray'' 3 1 [example_match, gone_match, example_match] [] empty_world))
         = [ConversationsHistory ''C123'' ''1609459200.000000'' True 1, UsersInfo ''U12345'',
            ConversationsHistory ''C404'' ''1609459100.000000'' True 1]"
    by (simp add: empty_world_def)
  from a b c h show ?thesis by simp
qed

theorem fetch_timeout_counterexample:
  "history_reply (patchy_client (OtherError ''timed out'') example_message) gone_match
     = Inl (OtherError ''timed out'')
   \<and> snd (fetch_message_details example_clock
        (patchy_client (OtherError ''timed out'') example_message)
        gone_match ''pray'' empty_world) = Inl (OtherError ''timed out'')
   \<and> snd (resolve_loop example_clock (patchy_client (OtherError ''timed out'') example_message)
        ''pray'' 2 1 [gone_match, example_match] [] empty_world)
       = Inl (OtherError ''timed out'')
   \<and> calls (fst (resolve_loop example_clock
        (patchy_client (OtherError ''timed out'') example_message)
        ''pray'' 2 1 [gone_match, example_match] [] empty_world))
       = [ConversationsHistory ''C404'' ''1609459100.000000'' True 1]"
  by (simp add: history_reply_def fetch_message_details_def handle_fetch_error_def
      patchy_client_def gone_match_def progress_def print_end_def issue_def empty_world_def
      Let_def)

text \<open>
  C9. For a fetched message that carries the target reaction, with a timestamp that
  converts: when the user lookup for the raw author identifier fails, by raising
  anything or by an answer without a name, the resolver still returns a record, whose
  author is the raw identifier; the run is not interrupted, and the loop over the
  matches goes on with that record appended.
\<close>

theorem lookup_failure_falls_back:
  assumes "history_reply c m = Inr (msg # others)" and "carries msg emoji r"
    and "ft (match_ts m) = Inr t" and "lookup_fails c (author_id msg)"
  shows "\<exists>d. (\<forall>w. fetch_message_details ft c m emoji w
                    = (issue (UsersInfo (author_id msg)) (issue (history_call m) w), Inr (Some d)))
             \<and> rec_user d = author_id msg
             \<and> (\<forall>n i rest acc w. resolve_loop ft c emoji n i (m # rest) acc w
                  = resolve_loop ft c emoji n (Suc i) rest (acc @ [d])
                      (issue (UsersInfo (author_id msg)) (issue (history_call m) (progress i n w))))"
proof -
  define d where "d = \<lparr>rec_text = (case msg_text msg of None \<Rightarrow> txt_no_text | Some x \<Rightarrow> x),
                       rec_user = author_id msg,
                       rec_count = reaction_count r,
                       rec_channel_name = chan_name (match_channel m),
                       rec_timestamp = match_ts m,
                       rec_datetime = t,
                       rec_permalink = match_permalink m\<rparr>"
  have f: "fetch_message_details ft c m emoji w
             = (issue (UsersInfo (author_id msg)) (issue (history_call m) w), Inr (Some d))" for w
    using fetch_qualifying [of c m msg others emoji r ft t w] assms(1,2,3)
      get_user_name_fails [OF assms(4)]
    by (simp add: d_def)
  have "resolve_loop ft c emoji n i (m # rest) acc w
          = resolve_loop ft c emoji n (Suc i) rest (acc @ [d])
              (issue (UsersInfo (author_id msg)) (issue (history_call m) (progress i n w)))"
    for n i rest acc w
    by (rule resolve_keep) (rule f)
  moreover have "rec_user d = author_id msg" by (simp add: d_def)
  ultimately show ?thesis using f by blast
qed

theorem lookup_failure_falls_back_witness:
  "lookup_fails (message_client \<lparr>msg_text = Some ''Great work!'', msg_user = Some ''U12345'',
                   msg_reactions = Some [\<lparr>reaction_name = ''pray'', reaction_count = 5\<rparr>]\<rparr>
                   no_user) ''U12345''
   \<and> snd (fetch_message_details example_clock
          (message_client \<lparr>msg_text = Some ''Great work!'', msg_user = Some ''U12345'',
                           msg_reactions = Some [\<lparr>reaction_name = ''pray'', reaction_count = 5\<rparr>]\<rparr>
             no_user)
          example_match ''pray'' empty_world)
     = Inr (Some \<lparr>rec_text = ''Great work!'', rec_user = ''U12345'', rec_count = 5,
                  rec_channel_name = ''general'', rec_timestamp = ''1609459200.000000'',
                  rec_datetime = \<lparr>dt_year = 2021, dt_month = 1, dt_day = 1, dt_time = 0\<rparr>,
                  rec_permalink = ''https://slack.com/link''\<rparr>)"
proof -
  let ?msg = "\<lparr>msg_text = Some ''Great work!'', msg_user = Some ''U12345'',
                msg_reactions = Some [\<lparr>reaction_name = ''pray'', reaction_count = 5\<rparr>]\<rparr>"
  let ?c = "message_client ?msg no_user"
  have h: "history_reply ?c example_match = Inr (?msg # [])"
    by (simp add: history_reply_def message_client_def)
  have k: "carries ?msg ''pray'' \<lparr>reaction_name = ''pray'', reaction_count = 5\<rparr>"
    by (simp add: carries_def)
  have t: "example_clock (match_ts example_match)
             = Inr \<lparr>dt_year = 2021, dt_month = 1, dt_day = 1, dt_time = 0\<rparr>"
    by (simp add: example_clock_def)
  have l: "lookup_fails ?c (author_id ?msg)"
    by (simp add: lookup_fails_def message_client_def no_user_def)
  from lookup_failure_falls_back [of ?c example_match ?msg "[]" "''pray''"
      "\<lparr>reaction_name = ''pray'', reaction_count = 5\<rparr>" example_clock
      "\<lparr>dt_year = 2021, dt_month = 1, dt_day = 1, dt_time = 0\<rparr>"] h k t l
  obtain d where run: "fetch_message_details example_clock ?c example_match ''pray'' empty_world
      = (issue (UsersInfo (author_id ?msg)) (issue (history_call example_match) empty_world),
         Inr (Some d))"
    and u: "rec_user d = author_id ?msg"
    by blast
  from l have "lookup_fails ?c ''U12345''" by (simp add: author_id_def)
  then show ?thesis
    using run u
    by (simp add: fetch_message_details_def message_client_def example_match_def
        get_user_name_def no_user_def example_clock_def Let_def)
qed

text \<open>
  C10. For a fetched message that carries the target reaction but has no author
  field, with a timestamp that converts: the resolution is a record, not an exception
  and not absent; the user lookup is called with the empty string, right after the
  message fetch, and no other call is made; and, that lookup failing, the record's
  author is the empty string.
\<close>

theorem missing_author_resolves:
  assumes "history_reply c m = Inr (msg # others)" and "carries msg emoji r"
    and "ft (match_ts m) = Inr t" and "msg_user msg = None"
  shows "\<exists>w' d. fetch_message_details ft c m emoji w = (w', Inr (Some d))
           \<and> calls w' = calls w @ [history_call m, UsersInfo []]
           \<and> (lookup_fails c [] \<longrightarrow> rec_user d = [])"
proof -
  from assms(4) have a: "author_id msg = []" by (simp add: author_id_def)
  show ?thesis
    using fetch_qualifying [of c m msg others emoji r ft t w] assms(1,2,3)
      get_user_name_fails [of c "[]" "issue (history_call m) w"]
      calls_get_user_name [of c "[]" "issue (history_call m) w"]
    by (simp add: a issue_def)
qed

theorem missing_author_resolves_witness:
  "lookup_fails (message_client \<lparr>msg_text = Some ''Great work!'', msg_user = None,
                   msg_reactions = Some [\<lparr>reaction_name = ''pray'', reaction_count = 5\<rparr>]\<rparr>
                   no_user) []
   \<and> snd (fetch_message_details example_clock
          (message_client \<lparr>msg_text = Some ''Great work!'', msg_user = None,
                           msg_reactions = Some [\<lparr>reaction_name = ''pray'', reaction_count = 5\<rparr>]\<rparr>
             no_user)
          example_match ''pray'' empty_world)
     = Inr (Some \<lparr>rec_text = ''Great work!'', rec_user = [], rec_count = 5,
                  rec_channel_name = ''general'', rec_timestamp = ''1609459200.000000'',
                  rec_datetime = \<lparr>dt_year = 2021, dt_month = 1, dt_day = 1, dt_time = 0\<rparr>,
                  rec_permalink = ''https://slack.com/link''\<rparr>)
   \<and> calls (fst (fetch_message_details example_clock
          (message_client \<lparr>msg_text = Some ''Great work!'', msg_user = None,
                           msg_reactions = Some [\<lparr>reaction_name = ''pray'', reaction_count = 5\<rparr>]\<rparr>
             no_user)
          example_match ''pray'' empty_world))
     = [ConversationsHistory ''C123'' ''1609459200.000000'' True 1, UsersInfo []]"
proof -
  let ?msg = "\<lparr>msg_text = Some ''Great work!'', msg_user = None,
                msg_reactions = Some [\<lparr>reaction_name = ''pray'', reaction_count = 5\<rparr>]\<rparr>"
  let ?c = "message_client ?msg no_user"
  have h: "history_reply ?c example_match = Inr (?msg # [])"
    by (simp add: history_reply_def message_client_def)
  have k: "carries ?msg ''pray'' \<lparr>reaction_name = ''pray'', reaction_count = 5\<rparr>"
    by (simp add: carries_def)
  have t: "example_clock (match_ts example_match)
             = Inr \<lparr>dt_year = 2021, dt_month = 1, dt_day = 1, dt_time = 0\<rparr>"
    by (simp add: example_clock_def)
  have u: "msg_user ?msg = None" by simp
  have l: "lookup_fails ?c []"
    by (simp add: lookup_fails_def message_client_def no_user_def)
  from missing_author_resolves [of ?c example_match ?msg "[]" "''pray''"
      "\<lparr>reaction_name = ''pray'', reaction_count = 5\<rparr>" example_clock
      "\<lparr>dt_year = 2021, dt_month = 1, dt_day = 1, dt_time = 0\<rparr>" empty_world] h k t u l
  obtain w' d where run: "fetch_message_details example_clock ?c example_match ''pray'' empty_world
      = (w', Inr (Some d))"
    and "rec_user d = []"
    by blast
  with l show ?thesis
    by (auto simp: fetch_message_details_def message_client_def example_match_def
        get_user_name_def no_user_def example_clock_def Let_def issue_def empty_world_def)
qed

section \<open>Properties of the ranking\<close>

text \<open>
  C8. The ranking puts the records in descending order of their reaction count
  and is a stable rearrangement: it keeps all records, and the records of any one
  count stay in the order in which they were accumulated, so nothing but the count
  decides the order. It is what \<^verbatim>\<open>search_and_analyze\<close> returns of the records its loop
  has gathered. Records with the counts 3, 10, 1, 7, 5 come out with the counts
  10, 7, 5, 3, 1.
\<close>

theorem rank_stable_descending:
  "sorted (rev (map rec_count (rank xs)))
   \<and> mset (rank xs) = mset xs
   \<and> (\<forall>k. filter (\<lambda>d. rec_count d = k) (rank xs) = filter (\<lambda>d. rec_count d = k) xs)
   \<and> (map rec_count xs = [3, 10, 1, 7, 5] \<longrightarrow> map rec_count (rank xs) = [10, 7, 5, 3, 1])
   \<and> (\<forall>w' ranked. search_and_analyze ft c q emoji t w = (w', Inr ranked) \<longrightarrow>
        (\<exists>w1 w2 ms ds. collect_matches c q t w = (w1, Inr ms)
           \<and> resolve_loop ft c emoji (length ms) 1 ms [] w1 = (w2, Inr ds)
           \<and> ranked = rank ds))"
proof (intro conjI allI impI)
  show "sorted (rev (map rec_count (rank xs)))"
    by (simp add: rank_def sort_reverse_def rev_map [symmetric])
  show "mset (rank xs) = mset xs"
    by (simp add: rank_def sort_reverse_def)
  show "filter (\<lambda>d. rec_count d = k) (rank xs) = filter (\<lambda>d. rec_count d = k) xs" for k
    by (simp add: rank_def sort_reverse_def rev_filter [symmetric] sort_key_stable)
next
  assume "map rec_count xs = [3, 10, 1, 7, 5]"
  then obtain a b c d e where xs: "xs = [a, b, c, d, e]"
    and k: "rec_count a = 3" "rec_count b = 10" "rec_count c = 1" "rec_count d = 7" "rec_count e = 5"
    by auto
  show "map rec_count (rank xs) = [10, 7, 5, 3, 1]"
    by (simp add: xs rank_def sort_reverse_def k)
next
  fix w' ranked
  assume "search_and_analyze ft c q emoji t w = (w', Inr ranked)"
  then show "\<exists>w1 w2 ms ds. collect_matches c q t w = (w1, Inr ms)
           \<and> resolve_loop ft c emoji (length ms) 1 ms [] w1 = (w2, Inr ds)
           \<and> ranked = rank ds"
    by (auto simp: search_and_analyze_def split: prod.splits sum.splits)
qed

theorem rank_stable_descending_witness:
  "map rec_count (rank [example_record ''msg1'' 3, example_record ''msg2'' 10,
                        example_record ''msg3'' 1, example_record ''msg4'' 7,
                        example_record ''msg5'' 5]) = [10, 7, 5, 3, 1]
   \<and> map rec_text (rank [example_record ''a'' 5, example_record ''b'' 7,
                          example_record ''c'' 5, example_record ''d'' 7])
       = [''b'', ''d'', ''a'', ''c'']"
proof -
  let ?xs = "[example_record ''msg1'' 3, example_record ''msg2'' 10,
              example_record ''msg3'' 1, example_record ''msg4'' 7,
              example_record ''msg5'' 5]"
  have "map rec_count ?xs = [3, 10, 1, 7, 5]"
    by (simp add: example_record_def)
  with rank_stable_descending [of ?xs example_clock "paged_client 0 0" "''has::pray:''"
      "''pray''" 100 empty_world]
  have "map rec_count (rank ?xs) = [10, 7, 5, 3, 1]"
    by blast
  moreover have "map rec_text (rank [example_record ''a'' 5, example_record ''b'' 7,
                          example_record ''c'' 5, example_record ''d'' 7])
       = [''b'', ''d'', ''a'', ''c'']"
    by (simp add: rank_def sort_reverse_def example_record_def)
  ultimately show ?thesis by simp
qed

end
